theory Spec2Isabelle
  imports Main "HOL-Library.Word" "HOL-Library.Signed_Division" "HOL-Library.Sublist"
    "HOL-Library.Monad_Syntax"
begin

chapter \<open>The program\<close>

section \<open>Outcomes of a call\<close>

text \<open>
  A Go call either returns, ends the process through \<^verbatim>\<open>os.Exit\<close>, or panics
  (an index or slice bound out of range). \<open>Exit c w\<close> carries the exit code and what
  the process leaves behind.
\<close>

datatype ('a, 'w) outcome = Returned 'a | Exit nat 'w | Panic

type_synonym uint64 = "64 word"

section \<open>The size string: \<^verbatim>\<open>stringToInt\<close> and \<^verbatim>\<open>unitConv\<close>\<close>

text \<open>
  \<^verbatim>\<open>for _, ch := range s { ch -= '0'; if ch > 9 { return n, err }; n = n*10 + uint64(ch) }\<close>

  \<open>ch\<close> is a rune, a signed 32-bit integer, so the subtraction gives a negative
  number for a character below \<open>'0'\<close>, and \<open>uint64(ch)\<close> is then its two's
  complement (\<open>word_of_int\<close>). The loop runs over the bytes here: a byte of 128 or more
  begins a rune of at least 128 (or the replacement rune), which the test \<open>ch > 9\<close>
  rejects exactly as it rejects the byte.  The result pairs \<open>n\<close> with the error flag.
\<close>

fun stringToInt_from :: "uint64 \<Rightarrow> string \<Rightarrow> uint64 \<times> bool" where
  "stringToInt_from n [] = (n, False)"
| "stringToInt_from n (c # cs) =
     (let ch = (of_char c :: int) - of_char CHR ''0'' in
      if ch > 9 then (n, True)
      else stringToInt_from (n * 10 + word_of_int ch) cs)"

definition stringToInt :: "string \<Rightarrow> uint64 \<times> bool" where
  "stringToInt s = stringToInt_from 0 s"

definition size_error :: "string \<Rightarrow> string" where
  "size_error s = ''The logfile size '' @ s @ '' is incorrect''"

text \<open>
  \<^verbatim>\<open>unitConv\<close> slices \<open>s[:len(s)-1]\<close> first: on the empty string the bound is \<open>-1\<close>
  and the runtime panics. Otherwise a parse error, or a last byte that is no unit,
  writes the message to the error stream and leaves with code 1. The products are
  \<open>uint64\<close> products: they wrap.
\<close>

definition unitConv :: "string \<Rightarrow> (uint64, string) outcome" where
  "unitConv s =
     (if s = [] then Panic
      else case stringToInt (butlast s) of
        (n, err) \<Rightarrow>
          if err then Exit 1 (size_error s)
          else if last s = CHR ''G'' \<or> last s = CHR ''g'' then Returned (n * 1024 * 1024 * 1024)
          else if last s = CHR ''M'' \<or> last s = CHR ''m'' then Returned (n * 1024 * 1024)
          else if last s = CHR ''K'' \<or> last s = CHR ''k'' then Returned (n * 1024)
          else Exit 1 (size_error s))"

subsection \<open>What the spec calls a decimal numeral\<close>

definition is_digit :: "char \<Rightarrow> bool" where
  "is_digit c \<longleftrightarrow> (of_char CHR ''0'' :: nat) \<le> of_char c \<and> (of_char c :: nat) \<le> of_char CHR ''9''"

text \<open>The number a string of decimal digits denotes, most significant digit first.\<close>

definition numeral_value :: "string \<Rightarrow> nat" where
  "numeral_value ds = foldl (\<lambda>a c. a * 10 + (of_char c - of_char CHR ''0'')) 0 ds"

definition unit_multiplier :: "char \<Rightarrow> nat" where
  "unit_multiplier u =
     (if u = CHR ''K'' \<or> u = CHR ''k'' then 1024
      else if u = CHR ''M'' \<or> u = CHR ''m'' then 1024 * 1024
      else if u = CHR ''G'' \<or> u = CHR ''g'' then 1024 * 1024 * 1024
      else 0)"

definition is_size_unit :: "char \<Rightarrow> bool" where
  "is_size_unit u \<longleftrightarrow> u \<in> set ''KkMmGg''"


section \<open>Severities\<close>

text \<open>\<^verbatim>\<open>type Severity int32\<close>, with the five levels numbered by \<^verbatim>\<open>iota\<close>. Go compares
  them as signed integers: \<open>sint\<close>.\<close>

type_synonym Severity = "32 word"

definition DebugLog :: Severity where "DebugLog = 0"
definition InfoLog :: Severity where "InfoLog = 1"
definition WarningLog :: Severity where "WarningLog = 2"
definition ErrorLog :: Severity where "ErrorLog = 3"
definition FatalLog :: Severity where "FatalLog = 4"

definition severityChar :: string where
  "severityChar = ''DIWEF''"

text \<open>\<^verbatim>\<open>severityChar[s]\<close>: an index outside the string panics.\<close>

definition severityChar_at :: "Severity \<Rightarrow> char option" where
  "severityChar_at s =
     (if 0 \<le> sint s \<and> sint s < int (length severityChar)
      then Some (severityChar ! nat (sint s)) else None)"

section \<open>The clock\<close>

text \<open>What \<^verbatim>\<open>now.Date()\<close>, \<^verbatim>\<open>now.Clock()\<close> and \<^verbatim>\<open>now.Nanosecond()\<close> give for one
  reading of the clock; all are Go \<^verbatim>\<open>int\<close>s.\<close>

record Time =
  Year :: int
  Month :: int
  Day :: int
  Hour :: int
  Minute :: int
  Second :: int
  Nanosecond :: int

text \<open>The ranges Go's \<^verbatim>\<open>time\<close> package documents for these accessors (the year is free).\<close>

definition valid_Time :: "Time \<Rightarrow> bool" where
  "valid_Time t \<longleftrightarrow>
     1 \<le> Month t \<and> Month t \<le> 12 \<and> 1 \<le> Day t \<and> Day t \<le> 31 \<and>
     0 \<le> Hour t \<and> Hour t \<le> 23 \<and> 0 \<le> Minute t \<and> Minute t \<le> 59 \<and>
     0 \<le> Second t \<and> Second t \<le> 59 \<and> 0 \<le> Nanosecond t \<and> Nanosecond t \<le> 999999999"

section \<open>Line buffers and the pool\<close>

text \<open>
  \<^verbatim>\<open>type buffer struct { bytes.Buffer; tmp [29]byte }\<close>.
  \<open>Buffer\<close> is the content of the embedded \<^verbatim>\<open>bytes.Buffer\<close>, \<open>tmp\<close> the scratch array.
  The pool is the global \<^verbatim>\<open>sync.Pool\<close>, held as a stack: \<^verbatim>\<open>Get\<close> hands out a pooled
  buffer, or a new zeroed one when there is none.
\<close>

record buffer =
  Buffer :: string
  tmp :: string

definition new_buffer :: buffer where
  "new_buffer = \<lparr>Buffer = [], tmp = replicate 29 (CHR 0x00)\<rparr>"

definition getBuffer :: "buffer list \<Rightarrow> buffer \<times> buffer list" where
  "getBuffer pl = (case pl of [] \<Rightarrow> (new_buffer, []) | b # bs \<Rightarrow> (b, bs))"

definition putBuffer :: "buffer \<Rightarrow> buffer list \<Rightarrow> buffer list" where
  "putBuffer b pl = b\<lparr>Buffer := []\<rparr> # pl"

text \<open>\<^verbatim>\<open>buf.Write(p)\<close> and \<^verbatim>\<open>buf.WriteString(s)\<close> append to the content.\<close>

definition buffer_Write :: "string \<Rightarrow> buffer \<Rightarrow> buffer" where
  "buffer_Write p b = b\<lparr>Buffer := Buffer b @ p\<rparr>"

section \<open>The header formatter\<close>

definition digits :: string where
  "digits = ''0123456789''"

text \<open>\<^verbatim>\<open>digits[k]\<close> and \<^verbatim>\<open>buf.tmp[i] = c\<close>; \<open>None\<close> is the index-out-of-range panic.
  Go's \<^verbatim>\<open>%\<close> and \<^verbatim>\<open>/\<close> truncate towards zero: \<open>smod\<close> and \<open>sdiv\<close>.\<close>

definition digits_at :: "int \<Rightarrow> char option" where
  "digits_at k = (if 0 \<le> k \<and> k < int (length digits) then Some (digits ! nat k) else None)"

definition tmp_set :: "nat \<Rightarrow> char \<Rightarrow> buffer \<Rightarrow> buffer option" where
  "tmp_set i c b = (if i < length (tmp b) then Some (b\<lparr>tmp := (tmp b)[i := c]\<rparr>) else None)"

definition twoDigits :: "nat \<Rightarrow> int \<Rightarrow> buffer \<Rightarrow> buffer option" where
  "twoDigits i d b = do {
     c1 \<leftarrow> digits_at (d smod 10);
     b1 \<leftarrow> tmp_set (i + 1) c1 b;
     c0 \<leftarrow> digits_at ((d sdiv 10) smod 10);
     tmp_set i c0 b1
   }"

text \<open>
  The two loops of \<^verbatim>\<open>nDigits\<close>. The first argument is \<open>j + 1\<close> for the loop variable
  \<open>j\<close> of the source, so that \<open>0\<close> stands for \<open>j < 0\<close>; the first loop returns the
  counter it stopped at.
\<close>

fun nDigits_digits :: "nat \<Rightarrow> nat \<Rightarrow> int \<Rightarrow> buffer \<Rightarrow> (nat \<times> buffer) option" where
  "nDigits_digits 0 i d b = Some (0, b)"
| "nDigits_digits (Suc j) i d b =
     (if d > 0 then do {
        c \<leftarrow> digits_at (d smod 10);
        b' \<leftarrow> tmp_set (i + j) c b;
        nDigits_digits j i (d sdiv 10) b'
      } else Some (Suc j, b))"

fun nDigits_pad :: "nat \<Rightarrow> nat \<Rightarrow> char \<Rightarrow> buffer \<Rightarrow> buffer option" where
  "nDigits_pad 0 i pad b = Some b"
| "nDigits_pad (Suc j) i pad b = do {
     b' \<leftarrow> tmp_set (i + j) pad b;
     nDigits_pad j i pad b'
   }"

definition nDigits :: "nat \<Rightarrow> nat \<Rightarrow> int \<Rightarrow> char \<Rightarrow> buffer \<Rightarrow> buffer option" where
  "nDigits n i d pad b = do {
     (k, b1) \<leftarrow> nDigits_digits n i d b;
     nDigits_pad k i pad b1
   }"

text \<open>
  \<^verbatim>\<open>someDigits\<close> prints into the top of \<open>tmp\<close> and copies down. The loop's first
  argument is \<open>j\<close> before \<^verbatim>\<open>j--\<close>; at \<open>0\<close> the decrement would index \<open>tmp[-1]\<close>.
  \<^verbatim>\<open>copy(buf.tmp[i:], buf.tmp[j:])\<close> moves as many bytes as the shorter slice has, as
  if from a snapshot of the source, and returns that number.
\<close>

fun someDigits_loop :: "nat \<Rightarrow> int \<Rightarrow> buffer \<Rightarrow> (nat \<times> buffer) option" where
  "someDigits_loop 0 d b = None"
| "someDigits_loop (Suc j) d b = do {
     c \<leftarrow> digits_at (d smod 10);
     b' \<leftarrow> tmp_set j c b;
     if d sdiv 10 = 0 then Some (j, b') else someDigits_loop j (d sdiv 10) b'
   }"

definition someDigits :: "nat \<Rightarrow> int \<Rightarrow> buffer \<Rightarrow> (nat \<times> buffer) option" where
  "someDigits i d b = do {
     (j, b1) \<leftarrow> someDigits_loop (length (tmp b)) d b;
     if i > length (tmp b1) then None
     else let n = min (length (tmp b1) - i) (length (tmp b1) - j) in
       Some (n, b1\<lparr>tmp := take i (tmp b1) @ take n (drop j (tmp b1)) @ drop (i + n) (tmp b1)\<rparr>)
   }"

text \<open>
  \<^verbatim>\<open>formatHeader\<close> takes the clock reading \<open>now\<close> (the source calls \<^verbatim>\<open>timeNow()\<close>) and
  the pool, from which it draws its buffer; it gives the buffer and the pool left.
\<close>

definition formatHeader ::
  "Time \<Rightarrow> Severity \<Rightarrow> string \<Rightarrow> int \<Rightarrow> buffer list \<Rightarrow> (buffer \<times> buffer list) option" where
  "formatHeader now s0 fl line0 pl =
     (let line = (if line0 < 0 then 0 else line0);
          s = (if sint s0 > sint FatalLog then FatalLog else s0);
          (buf, pl') = getBuffer pl
      in do {
        c \<leftarrow> severityChar_at s;
        b \<leftarrow> tmp_set 0 c buf;
        b \<leftarrow> nDigits 4 1 (Year now) CHR ''0'' b;
        b \<leftarrow> tmp_set 5 CHR ''-'' b;
        b \<leftarrow> twoDigits 6 (Month now) b;
        b \<leftarrow> tmp_set 8 CHR ''-'' b;
        b \<leftarrow> twoDigits 9 (Day now) b;
        b \<leftarrow> tmp_set 11 CHR '' '' b;
        b \<leftarrow> twoDigits 12 (Hour now) b;
        b \<leftarrow> tmp_set 14 CHR '':'' b;
        b \<leftarrow> twoDigits 15 (Minute now) b;
        b \<leftarrow> tmp_set 17 CHR '':'' b;
        b \<leftarrow> twoDigits 18 (Second now) b;
        b \<leftarrow> tmp_set 20 CHR ''.'' b;
        b \<leftarrow> nDigits 6 21 (Nanosecond now sdiv 1000) CHR ''0'' b;
        b \<leftarrow> tmp_set 27 CHR '' '' b;
        b \<leftarrow> (if 28 \<le> length (tmp b) then Some (buffer_Write (take 28 (tmp b)) b) else None);
        b \<leftarrow> Some (buffer_Write fl b);
        b \<leftarrow> tmp_set 0 CHR '':'' b;
        (n, b) \<leftarrow> someDigits 1 line b;
        b \<leftarrow> tmp_set (n + 1) CHR '']'' b;
        b \<leftarrow> tmp_set (n + 2) CHR '' '' b;
        b \<leftarrow> (if n + 3 \<le> length (tmp b) then Some (buffer_Write (take (n + 3) (tmp b)) b) else None);
        Some (b, pl')
      })"

subsection \<open>The layout in the spec's words\<close>

definition digit_char :: "nat \<Rightarrow> char" where
  "digit_char k = ''0123456789'' ! k"

text \<open>A number in exactly \<open>k\<close> decimal digits, zero-padded on the left (the \<open>k\<close>
  low-order digits, should the number have more).\<close>

fun zero_padded :: "nat \<Rightarrow> nat \<Rightarrow> string" where
  "zero_padded 0 n = []"
| "zero_padded (Suc k) n = zero_padded k (n div 10) @ [digit_char (n mod 10)]"

text \<open>A number in minimal-width decimal: no leading zero, \<open>0\<close> itself as one digit.\<close>

fun decimal :: "nat \<Rightarrow> string" where
  "decimal n = (if n < 10 then [digit_char n] else decimal (n div 10) @ [digit_char (n mod 10)])"

declare decimal.simps [simp del]

text \<open>The severity character; a severity above \<open>FatalLog\<close> counts as \<open>FatalLog\<close>.\<close>

definition severity_letter :: "Severity \<Rightarrow> char" where
  "severity_letter s =
     (if s = DebugLog then CHR ''D'' else if s = InfoLog then CHR ''I''
      else if s = WarningLog then CHR ''W'' else if s = ErrorLog then CHR ''E'' else CHR ''F'')"

definition header_text :: "Severity \<Rightarrow> Time \<Rightarrow> string \<Rightarrow> int \<Rightarrow> string" where
  "header_text s t fl line =
     [severity_letter s] @ zero_padded 4 (nat (Year t)) @ ''-'' @
     zero_padded 2 (nat (Month t)) @ ''-'' @ zero_padded 2 (nat (Day t)) @ '' '' @
     zero_padded 2 (nat (Hour t)) @ '':'' @ zero_padded 2 (nat (Minute t)) @ '':'' @
     zero_padded 2 (nat (Second t)) @ ''.'' @ zero_padded 6 (nat (Nanosecond t) div 1000) @ '' '' @
     fl @ '':'' @ decimal (nat line) @ ''] ''"


section \<open>The logger, the sink and the operating system\<close>

text \<open>
  \<open>bufio_Writer\<close> is the state of a \<^verbatim>\<open>bufio.Writer\<close>: the bytes it holds and its sticky
  error. \<open>syncBuffer\<close> keeps the writer and the byte counter; its file handle always
  names the file created at \<open>logPath\<close>, so it is not a field here, and the field
  \<^verbatim>\<open>num\<close> is never used. \<open>loggingT\<close> is the logger (its mutex has no place in a
  sequential model); \<open>file'\<close> is the field \<^verbatim>\<open>file\<close>,
  \<open>None\<close> being the nil interface before the first write.
  \<open>world\<close> adds what the logger acts on: the files by path, the error stream and the
  global buffer pool.
\<close>

record bufio_Writer =
  wbuf :: string
  werr :: "string option"

record syncBuffer =
  Writer :: bufio_Writer
  nbytes :: uint64

record loggingT =
  logPath :: string
  logLevel :: Severity
  fileMaxSize :: uint64
  file' :: "syncBuffer option"

record world = loggingT +
  disk :: "string \<rightharpoonup> string"
  stderr :: string
  pool :: "buffer list"

text \<open>
  What one call finds around it: the two clock readings (\<^verbatim>\<open>timeNow()\<close> in
  \<^verbatim>\<open>formatHeader\<close>, \<^verbatim>\<open>time.Now()\<close> in \<^verbatim>\<open>Write\<close>), the call stack as
  \<^verbatim>\<open>runtime.Caller\<close> reports it (\<open>None\<close> when not ok), and the failures of the
  operating system: the error of \<^verbatim>\<open>os.Create\<close>, of \<^verbatim>\<open>os.Rename\<close>, and for a write to
  the file how many bytes it takes before it fails.
\<close>

record env =
  timeNow :: Time
  time_Now :: Time
  Caller :: "int \<Rightarrow> (string \<times> int) option"
  Create_error :: "string option"
  Rename_error :: "string option"
  Write_error :: "(nat \<times> string) option"

definition NewLogger ::
  "string \<Rightarrow> string \<Rightarrow> Severity \<Rightarrow> int \<Rightarrow> (loggingT, string) outcome" where
  "NewLogger path maxSize level flushInterval =
     (case unitConv maxSize of
        Returned n \<Rightarrow> Returned \<lparr>logPath = path, logLevel = level, fileMaxSize = n, file' = None\<rparr>
      | Exit c e \<Rightarrow> Exit c e
      | Panic \<Rightarrow> Panic)"

definition SetLevel :: "Severity \<Rightarrow> world \<Rightarrow> world" where
  "SetLevel level w = w\<lparr>logLevel := level\<rparr>"

subsection \<open>Files\<close>

definition newline :: char where
  "newline = CHR 0x0A"

definition os_Create :: "env \<Rightarrow> string \<Rightarrow> (string \<rightharpoonup> string) \<Rightarrow> string option \<times> (string \<rightharpoonup> string)" where
  "os_Create e path d =
     (case Create_error e of Some x \<Rightarrow> (Some x, d) | None \<Rightarrow> (None, d(path \<mapsto> [])))"

definition os_Rename ::
  "env \<Rightarrow> string \<Rightarrow> string \<Rightarrow> (string \<rightharpoonup> string) \<Rightarrow> string option \<times> (string \<rightharpoonup> string)" where
  "os_Rename e old new d =
     (case Rename_error e of
        Some x \<Rightarrow> (Some x, d)
      | None \<Rightarrow>
          (case d old of
             None \<Rightarrow> (Some ''no such file or directory'', d)
           | Some c \<Rightarrow> (None, (d(old := None))(new \<mapsto> c))))"

definition file_content :: "(string \<rightharpoonup> string) \<Rightarrow> string \<Rightarrow> string" where
  "file_content d path = (case d path of None \<Rightarrow> [] | Some c \<Rightarrow> c)"

definition file_Write ::
  "env \<Rightarrow> string \<Rightarrow> string \<Rightarrow> (string \<rightharpoonup> string) \<Rightarrow> nat \<times> string option \<times> (string \<rightharpoonup> string)" where
  "file_Write e path p d =
     (case Write_error e of
        None \<Rightarrow> (length p, None, d(path \<mapsto> file_content d path @ p))
      | Some (k, x) \<Rightarrow> (min k (length p), Some x, d(path \<mapsto> file_content d path @ take k p)))"

subsection \<open>The buffered writer\<close>

text \<open>\<^verbatim>\<open>bufio.NewWriterSize(sb.file, bufferSize)\<close>, and \<^verbatim>\<open>Flush\<close>, \<^verbatim>\<open>Available\<close> and \<^verbatim>\<open>Write\<close>
  of the standard library, on the writer and the files.\<close>

definition bufferSize :: nat where
  "bufferSize = 256 * 1024"

definition NewWriterSize :: bufio_Writer where
  "NewWriterSize = \<lparr>wbuf = [], werr = None\<rparr>"

definition bufio_Flush ::
  "env \<Rightarrow> string \<Rightarrow> bufio_Writer \<Rightarrow> (string \<rightharpoonup> string) \<Rightarrow> bufio_Writer \<times> (string \<rightharpoonup> string)" where
  "bufio_Flush e path b d =
     (if werr b \<noteq> None then (b, d)
      else if wbuf b = [] then (b, d)
      else case file_Write e path (wbuf b) d of
        (n, Some x, d') \<Rightarrow> (b\<lparr>wbuf := drop n (wbuf b), werr := Some x\<rparr>, d')
      | (n, None, d') \<Rightarrow> (b\<lparr>wbuf := []\<rparr>, d'))"

definition Available :: "bufio_Writer \<Rightarrow> nat" where
  "Available b = bufferSize - length (wbuf b)"

text \<open>The loop of \<^verbatim>\<open>bufio.Writer.Write\<close>: while \<open>p\<close> does not fit and no error is set, a
  write with an empty buffer goes to the file directly, otherwise the buffer is filled
  and flushed. It gives what is left of \<open>p\<close> and the count \<open>nn\<close>.\<close>

function bufio_Write_loop ::
  "env \<Rightarrow> string \<Rightarrow> string \<Rightarrow> nat \<Rightarrow> bufio_Writer \<Rightarrow> (string \<rightharpoonup> string)
     \<Rightarrow> string \<times> nat \<times> bufio_Writer \<times> (string \<rightharpoonup> string)" where
  "bufio_Write_loop e path p nn b d =
     (if length p > Available b \<and> werr b = None then
        (if wbuf b = [] then
           (let r = file_Write e path p d; n = fst r
            in bufio_Write_loop e path (drop n p) (nn + n) (b\<lparr>werr := fst (snd r)\<rparr>) (snd (snd r)))
         else
           (let n = min (Available b) (length p);
                r = bufio_Flush e path (b\<lparr>wbuf := wbuf b @ take n p\<rparr>) d
            in bufio_Write_loop e path (drop n p) (nn + n) (fst r) (snd r)))
      else (p, nn, b, d))"
  by pat_completeness auto
termination
proof (relation "measure (\<lambda>(e, path, p, nn, b, d).
         if werr b \<noteq> None \<or> length p \<le> Available b then 0 else if wbuf b = [] then 1 else 2)")
  show "wf (measure (\<lambda>(e, path, p, nn, b, d).
         if werr b \<noteq> None \<or> length p \<le> Available b then 0 else if wbuf b = [] then 1 else (2::nat)))"
    by simp
next
  fix e :: env and path p :: string and nn :: nat and b :: bufio_Writer
    and d :: "string \<rightharpoonup> string" and r n
  assume "Available b < length p \<and> werr b = None" "wbuf b = []" "r = file_Write e path p d" "n = fst r"
  then show "((e, path, drop n p, nn + n, b\<lparr>werr := fst (snd r)\<rparr>, snd (snd r)), e, path, p, nn, b, d)
      \<in> measure (\<lambda>(e, path, p, nn, b, d).
         if werr b \<noteq> None \<or> length p \<le> Available b then 0 else if wbuf b = [] then 1 else 2)"
    by (auto simp: file_Write_def split: option.splits)
next
  fix e :: env and path p :: string and nn :: nat and b :: bufio_Writer
    and d :: "string \<rightharpoonup> string" and r n
  assume "Available b < length p \<and> werr b = None" "wbuf b \<noteq> []" "n = min (Available b) (length p)"
    "r = bufio_Flush e path (b\<lparr>wbuf := wbuf b @ take n p\<rparr>) d"
  then show "((e, path, drop n p, nn + n, fst r, snd r), e, path, p, nn, b, d)
      \<in> measure (\<lambda>(e, path, p, nn, b, d).
         if werr b \<noteq> None \<or> length p \<le> Available b then 0 else if wbuf b = [] then 1 else 2)"
    by (auto simp: bufio_Flush_def file_Write_def split: option.splits prod.splits)
qed

declare bufio_Write_loop.simps [simp del]

definition bufio_Write ::
  "env \<Rightarrow> string \<Rightarrow> string \<Rightarrow> bufio_Writer \<Rightarrow> (string \<rightharpoonup> string)
     \<Rightarrow> nat \<times> string option \<times> bufio_Writer \<times> (string \<rightharpoonup> string)" where
  "bufio_Write e path p0 b0 d0 =
     (case bufio_Write_loop e path p0 0 b0 d0 of
        (p, nn, b, d) \<Rightarrow>
          if werr b \<noteq> None then (nn, werr b, b, d)
          else (nn + length p, None, b\<lparr>wbuf := wbuf b @ p\<rparr>, d))"

subsection \<open>The rotating sink\<close>

text \<open>
  \<^verbatim>\<open>create\<close> is called on a sink \<open>sb\<close> that is, or on success becomes, the logger's
  \<open>file'\<close>. The functions give the error (\<open>None\<close> for nil) with the world they leave.
\<close>

definition create :: "env \<Rightarrow> syncBuffer \<Rightarrow> world \<Rightarrow> string option \<times> world" where
  "create e sb w =
     (case os_Create e (logPath w) (disk w) of
        (Some x, d) \<Rightarrow> (Some x, w\<lparr>disk := d\<rparr>)
      | (None, d) \<Rightarrow>
          (None, w\<lparr>disk := d, file' := Some (sb\<lparr>nbytes := 0, Writer := NewWriterSize\<rparr>)\<rparr>))"

text \<open>\<^verbatim>\<open>sb.Flush()\<close> on the logger's sink; its error stays in the writer.\<close>

definition syncBuffer_Flush :: "env \<Rightarrow> syncBuffer \<Rightarrow> world \<Rightarrow> world" where
  "syncBuffer_Flush e sb w =
     (case bufio_Flush e (logPath w) (Writer sb) (disk w) of
        (b, d) \<Rightarrow> w\<lparr>disk := d, file' := Some (sb\<lparr>Writer := b\<rparr>)\<rparr>)"

text \<open>\<^verbatim>\<open>flushAll\<close>: flush, then \<^verbatim>\<open>Sync\<close>, which changes nothing that is modelled.\<close>

definition flushAll :: "env \<Rightarrow> world \<Rightarrow> world" where
  "flushAll e w = (case file' w of None \<Rightarrow> w | Some sb \<Rightarrow> syncBuffer_Flush e sb w)"

definition Flush :: "env \<Rightarrow> world \<Rightarrow> world" where
  "Flush e w = flushAll e w"

text \<open>\<^verbatim>\<open>l.exit(err)\<close>: the message, a last flush, \<^verbatim>\<open>os.Exit(2)\<close>.\<close>

definition exit :: "env \<Rightarrow> string \<Rightarrow> world \<Rightarrow> ('a, world) outcome" where
  "exit e err w =
     Exit 2 (flushAll e (w\<lparr>stderr := stderr w @ ''log: exiting because of error: '' @ err @ [newline]\<rparr>))"

text \<open>The verb \<^verbatim>\<open>%d\<close> of \<^verbatim>\<open>fmt.Sprintf\<close> on an integer (\<^verbatim>\<open>time.Month\<close> prints as its
  number under \<^verbatim>\<open>%d\<close>).\<close>

definition fmt_d :: "int \<Rightarrow> string" where
  "fmt_d k = (if k < 0 then CHR ''-'' # decimal (nat (- k)) else decimal (nat k))"

definition rotateFile :: "env \<Rightarrow> Time \<Rightarrow> syncBuffer \<Rightarrow> world \<Rightarrow> string option \<times> world" where
  "rotateFile e now sb w =
     (case bufio_Flush e (logPath w) (Writer sb) (disk w) of
        (b, d0) \<Rightarrow>
          (let sb1 = sb\<lparr>Writer := b\<rparr>;
               w1 = w\<lparr>disk := d0, file' := Some sb1\<rparr>;
               filePath = logPath w1 @ ''.'' @ fmt_d (Year now) @ fmt_d (Month now) @ fmt_d (Day now)
                            @ ''.'' @ fmt_d (Hour now) @ fmt_d (Minute now) @ fmt_d (Day now)
           in case os_Rename e (logPath w1) filePath (disk w1) of
                (Some x, d) \<Rightarrow> (Some x, w1\<lparr>disk := d\<rparr>)
              | (None, d) \<Rightarrow> create e sb1 (w1\<lparr>disk := d\<rparr>)))"

text \<open>
  \<^verbatim>\<open>syncBuffer.Write\<close> is only ever called as \<^verbatim>\<open>l.file.Write(data)\<close>; on a nil
  \<open>file'\<close> that call panics. The sum is a \<open>uint64\<close> sum and the comparison unsigned.
\<close>

definition syncBuffer_Write :: "env \<Rightarrow> string \<Rightarrow> world \<Rightarrow> (nat \<times> world, world) outcome" where
  "syncBuffer_Write e p w =
     (case file' w of
        None \<Rightarrow> Panic
      | Some sb \<Rightarrow>
          (case (if nbytes sb + of_nat (length p) \<ge> fileMaxSize w
                 then rotateFile e (time_Now e) sb w else (None, w)) of
             (Some x, w1) \<Rightarrow> exit e x w1
           | (None, w1) \<Rightarrow>
               (case file' w1 of
                  None \<Rightarrow> Panic
                | Some sb1 \<Rightarrow>
                    (case bufio_Write e (logPath w1) p (Writer sb1) (disk w1) of
                       (n, er, b, d) \<Rightarrow>
                         (let w2 = w1\<lparr>disk := d,
                                      file' := Some (sb1\<lparr>Writer := b, nbytes := nbytes sb1 + of_nat n\<rparr>)\<rparr>
                          in case er of Some x \<Rightarrow> exit e x w2 | None \<Rightarrow> Returned (n, w2))))))"

subsection \<open>Assembling and emitting a record\<close>

text \<open>\<^verbatim>\<open>strings.LastIndex(file, "/")\<close>: the index of the last slash, or \<open>-1\<close>.\<close>

fun LastIndex :: "string \<Rightarrow> char \<Rightarrow> int" where
  "LastIndex [] c = - 1"
| "LastIndex (x # xs) c =
     (let r = LastIndex xs c in if r \<ge> 0 then r + 1 else if x = c then 0 else - 1)"

definition header :: "env \<Rightarrow> Severity \<Rightarrow> int \<Rightarrow> world \<Rightarrow> ((buffer \<times> string \<times> int) \<times> world) option" where
  "header e s depth w =
     (let (fl, line) =
            (case Caller e (3 + depth) of
               None \<Rightarrow> (''???'', 1)
             | Some (f, ln) \<Rightarrow>
                 (let slash = LastIndex f CHR ''/''
                  in if slash \<ge> 0 then (drop (nat (slash + 1)) f, ln) else (f, ln)))
      in case formatHeader (timeNow e) s fl line (pool w) of
           None \<Rightarrow> None
         | Some (buf, pl) \<Rightarrow> Some ((buf, fl, line), w\<lparr>pool := pl\<rparr>))"

definition fresh_syncBuffer :: syncBuffer where
  "fresh_syncBuffer = \<lparr>Writer = NewWriterSize, nbytes = 0\<rparr>"

definition output' :: "env \<Rightarrow> buffer \<Rightarrow> string \<Rightarrow> int \<Rightarrow> world \<Rightarrow> (world, world) outcome" where
  "output' e buf fl line w =
     (let data = Buffer buf in
      case (if file' w = None then create e fresh_syncBuffer w else (None, w)) of
        (Some x, w1) \<Rightarrow> exit e x (w1\<lparr>stderr := stderr w1 @ data\<rparr>)
      | (None, w1) \<Rightarrow>
          (case syncBuffer_Write e data w1 of
             Returned (n, w2) \<Rightarrow> Returned (w2\<lparr>pool := putBuffer buf (pool w2)\<rparr>)
           | Exit c x \<Rightarrow> Exit c x
           | Panic \<Rightarrow> Panic))"

text \<open>
  The argument \<open>msg\<close> of the print functions is the text that \<^verbatim>\<open>fmt.Fprint(buf, args...)\<close>
  or \<^verbatim>\<open>fmt.Fprintf(buf, format, args...)\<close> writes for the caller's arguments.
  \<^verbatim>\<open>buf.Bytes()[buf.Len()-1]\<close> panics on an empty buffer.
\<close>

definition printDepth :: "env \<Rightarrow> Severity \<Rightarrow> int \<Rightarrow> string \<Rightarrow> world \<Rightarrow> (world, world) outcome" where
  "printDepth e s depth msg w =
     (case header e s depth w of
        None \<Rightarrow> Panic
      | Some ((buf, fl, line), w1) \<Rightarrow>
          (let buf1 = buffer_Write msg buf in
           if Buffer buf1 = [] then Panic
           else let buf2 = (if last (Buffer buf1) \<noteq> newline then buffer_Write [newline] buf1 else buf1)
                in output' e buf2 fl line w1))"

definition print :: "env \<Rightarrow> Severity \<Rightarrow> string \<Rightarrow> world \<Rightarrow> (world, world) outcome" where
  "print e s msg w = printDepth e s 1 msg w"

definition printfDepth :: "env \<Rightarrow> Severity \<Rightarrow> int \<Rightarrow> string \<Rightarrow> world \<Rightarrow> (world, world) outcome" where
  "printfDepth e s depth msg w =
     (case header e s depth w of
        None \<Rightarrow> Panic
      | Some ((buf, fl, line), w1) \<Rightarrow>
          (let buf1 = buffer_Write msg buf in
           if Buffer buf1 = [] then Panic
           else let buf2 = (if last (Buffer buf1) \<noteq> newline then buffer_Write [newline] buf1 else buf1)
                in output' e buf2 fl line w1))"

definition printf :: "env \<Rightarrow> Severity \<Rightarrow> string \<Rightarrow> world \<Rightarrow> (world, world) outcome" where
  "printf e s msg w =
     (case header e s 0 w of
        None \<Rightarrow> Panic
      | Some ((buf, fl, line), w1) \<Rightarrow>
          (let buf1 = buffer_Write msg buf in
           if Buffer buf1 = [] then Panic
           else let buf2 = (if last (Buffer buf1) \<noteq> newline then buffer_Write [newline] buf1 else buf1)
                in output' e buf2 fl line w1))"

subsection \<open>The public emit operations\<close>

text \<open>After \<^verbatim>\<open>l.exit(errors.New(""))\<close> nothing runs; a print that has already left the
  process, or panicked, is the outcome of the call.\<close>

definition then_exit :: "env \<Rightarrow> (world, world) outcome \<Rightarrow> (world, world) outcome" where
  "then_exit e r = (case r of Returned w \<Rightarrow> exit e [] w | Exit c x \<Rightarrow> Exit c x | Panic \<Rightarrow> Panic)"

definition Debugf :: "env \<Rightarrow> string \<Rightarrow> world \<Rightarrow> (world, world) outcome" where
  "Debugf e msg w = (if sint DebugLog \<ge> sint (logLevel w) then printf e DebugLog msg w else Returned w)"

definition Infof :: "env \<Rightarrow> string \<Rightarrow> world \<Rightarrow> (world, world) outcome" where
  "Infof e msg w = (if sint InfoLog \<ge> sint (logLevel w) then printf e InfoLog msg w else Returned w)"

definition Warningf :: "env \<Rightarrow> string \<Rightarrow> world \<Rightarrow> (world, world) outcome" where
  "Warningf e msg w = (if sint WarningLog \<ge> sint (logLevel w) then printf e WarningLog msg w else Returned w)"

definition Errorf :: "env \<Rightarrow> string \<Rightarrow> world \<Rightarrow> (world, world) outcome" where
  "Errorf e msg w = (if sint ErrorLog \<ge> sint (logLevel w) then printf e ErrorLog msg w else Returned w)"

definition Fatalf :: "env \<Rightarrow> string \<Rightarrow> world \<Rightarrow> (world, world) outcome" where
  "Fatalf e msg w =
     (if sint FatalLog \<ge> sint (logLevel w) then then_exit e (printf e FatalLog msg w) else Returned w)"

definition Debug :: "env \<Rightarrow> string \<Rightarrow> world \<Rightarrow> (world, world) outcome" where
  "Debug e msg w = (if sint DebugLog \<ge> sint (logLevel w) then print e DebugLog msg w else Returned w)"

definition Info :: "env \<Rightarrow> string \<Rightarrow> world \<Rightarrow> (world, world) outcome" where
  "Info e msg w = (if sint InfoLog \<ge> sint (logLevel w) then print e InfoLog msg w else Returned w)"

definition Warning :: "env \<Rightarrow> string \<Rightarrow> world \<Rightarrow> (world, world) outcome" where
  "Warning e msg w = (if sint WarningLog \<ge> sint (logLevel w) then print e WarningLog msg w else Returned w)"

definition Error :: "env \<Rightarrow> string \<Rightarrow> world \<Rightarrow> (world, world) outcome" where
  "Error e msg w = (if sint ErrorLog \<ge> sint (logLevel w) then print e ErrorLog msg w else Returned w)"

definition Fatal :: "env \<Rightarrow> string \<Rightarrow> world \<Rightarrow> (world, world) outcome" where
  "Fatal e msg w =
     (if sint FatalLog \<ge> sint (logLevel w) then then_exit e (print e FatalLog msg w) else Returned w)"

definition DebugDepth :: "env \<Rightarrow> int \<Rightarrow> string \<Rightarrow> world \<Rightarrow> (world, world) outcome" where
  "DebugDepth e depth msg w =
     (if sint DebugLog \<ge> sint (logLevel w) then printDepth e DebugLog depth msg w else Returned w)"

definition InfoDepth :: "env \<Rightarrow> int \<Rightarrow> string \<Rightarrow> world \<Rightarrow> (world, world) outcome" where
  "InfoDepth e depth msg w =
     (if sint InfoLog \<ge> sint (logLevel w) then printDepth e InfoLog depth msg w else Returned w)"

definition WarningDepth :: "env \<Rightarrow> int \<Rightarrow> string \<Rightarrow> world \<Rightarrow> (world, world) outcome" where
  "WarningDepth e depth msg w =
     (if sint WarningLog \<ge> sint (logLevel w) then printDepth e WarningLog depth msg w else Returned w)"

definition ErrorDepth :: "env \<Rightarrow> int \<Rightarrow> string \<Rightarrow> world \<Rightarrow> (world, world) outcome" where
  "ErrorDepth e depth msg w =
     (if sint ErrorLog \<ge> sint (logLevel w) then printDepth e ErrorLog depth msg w else Returned w)"

definition FatalDepth :: "env \<Rightarrow> int \<Rightarrow> string \<Rightarrow> world \<Rightarrow> (world, world) outcome" where
  "FatalDepth e depth msg w =
     (if sint FatalLog \<ge> sint (logLevel w)
      then then_exit e (printDepth e FatalLog depth msg w) else Returned w)"

definition DebugfDepth :: "env \<Rightarrow> int \<Rightarrow> string \<Rightarrow> world \<Rightarrow> (world, world) outcome" where
  "DebugfDepth e depth msg w =
     (if sint DebugLog \<ge> sint (logLevel w) then printfDepth e DebugLog depth msg w else Returned w)"

definition InfofDepth :: "env \<Rightarrow> int \<Rightarrow> string \<Rightarrow> world \<Rightarrow> (world, world) outcome" where
  "InfofDepth e depth msg w =
     (if sint InfoLog \<ge> sint (logLevel w) then printfDepth e InfoLog depth msg w else Returned w)"

definition WarningfDepth :: "env \<Rightarrow> int \<Rightarrow> string \<Rightarrow> world \<Rightarrow> (world, world) outcome" where
  "WarningfDepth e depth msg w =
     (if sint WarningLog \<ge> sint (logLevel w) then printfDepth e WarningLog depth msg w else Returned w)"

definition ErrorfDepth :: "env \<Rightarrow> int \<Rightarrow> string \<Rightarrow> world \<Rightarrow> (world, world) outcome" where
  "ErrorfDepth e depth msg w =
     (if sint ErrorLog \<ge> sint (logLevel w) then printfDepth e ErrorLog depth msg w else Returned w)"

definition FatalfDepth :: "env \<Rightarrow> int \<Rightarrow> string \<Rightarrow> world \<Rightarrow> (world, world) outcome" where
  "FatalfDepth e depth msg w =
     (if sint FatalLog \<ge> sint (logLevel w)
      then then_exit e (printfDepth e FatalLog depth msg w) else Returned w)"

section \<open>Notions the statements use\<close>

text \<open>Every pooled buffer is empty and has its 29 scratch bytes.\<close>

definition pool_ok :: "buffer list \<Rightarrow> bool" where
  "pool_ok pl \<longleftrightarrow> list_all (\<lambda>b. Buffer b = [] \<and> length (tmp b) = 29) pl"

text \<open>The bytes the sink has accepted for the current file: those on disk at \<open>logPath\<close>
  followed by those the buffered writer still holds.\<close>

definition sink_content :: "world \<Rightarrow> string" where
  "sink_content w =
     file_content (disk w) (logPath w) @ (case file' w of None \<Rightarrow> [] | Some sb \<Rightarrow> wbuf (Writer sb))"

definition no_faults :: "env \<Rightarrow> bool" where
  "no_faults e \<longleftrightarrow> Create_error e = None \<and> Rename_error e = None \<and> Write_error e = None"

text \<open>An open sink is healthy when its writer has no sticky error and its file exists.\<close>

definition sink_ok :: "world \<Rightarrow> bool" where
  "sink_ok w \<longleftrightarrow>
     (case file' w of None \<Rightarrow> True | Some sb \<Rightarrow> werr (Writer sb) = None \<and> disk w (logPath w) \<noteq> None)"

text \<open>The name a rotation at time \<open>t\<close> gives the old file, in the spec's words.\<close>

definition rotated_name :: "string \<Rightarrow> Time \<Rightarrow> string" where
  "rotated_name path t =
     path @ ''.'' @ decimal (nat (Year t)) @ decimal (nat (Month t)) @ decimal (nat (Day t))
          @ ''.'' @ decimal (nat (Hour t)) @ decimal (nat (Minute t)) @ decimal (nat (Day t))"

text \<open>A file name without its directories.\<close>

definition basename :: "string \<Rightarrow> string" where
  "basename f = rev (takeWhile (\<lambda>c. c \<noteq> CHR ''/'') (rev f))"

text \<open>The caller's location as a header shows it, for the stack frame \<open>k\<close>.\<close>

definition caller_file :: "env \<Rightarrow> int \<Rightarrow> string" where
  "caller_file e k = (case Caller e k of None \<Rightarrow> ''???'' | Some (f, ln) \<Rightarrow> basename f)"

definition caller_line :: "env \<Rightarrow> int \<Rightarrow> int" where
  "caller_line e k = (case Caller e k of None \<Rightarrow> 1 | Some (f, ln) \<Rightarrow> ln)"

text \<open>The payload with a newline added when it does not end in one.\<close>

definition newline_terminated :: "string \<Rightarrow> string" where
  "newline_terminated msg = (if msg \<noteq> [] \<and> last msg = newline then msg else msg @ [newline])"

text \<open>The record of a call at severity \<open>s\<close> whose caller is the stack frame \<open>k\<close>.\<close>

definition record_text :: "env \<Rightarrow> Severity \<Rightarrow> int \<Rightarrow> string \<Rightarrow> string" where
  "record_text e s k msg =
     header_text s (timeNow e) (caller_file e k) (caller_line e k) @ newline_terminated msg"

text \<open>The clock and the frame \<open>k\<close> are as Go gives them: calendar fields in range, a line
  number that is a non-negative 64-bit \<^verbatim>\<open>int\<close>.\<close>

definition env_ok :: "env \<Rightarrow> int \<Rightarrow> bool" where
  "env_ok e k \<longleftrightarrow> valid_Time (timeNow e) \<and> 0 \<le> caller_line e k \<and> caller_line e k < 2 ^ 63"

text \<open>The world an outcome leaves, and its sink.\<close>

definition final_world :: "(world, world) outcome \<Rightarrow> world option" where
  "final_world r = (case r of Returned w \<Rightarrow> Some w | Exit c w \<Rightarrow> Some w | Panic \<Rightarrow> None)"

text \<open>The counter agrees with the sink: it is the number of bytes accepted for the
  current file, counted in 64 bits.\<close>

definition counter_ok :: "world \<Rightarrow> bool" where
  "counter_ok w \<longleftrightarrow>
     (case file' w of None \<Rightarrow> True
      | Some sb \<Rightarrow> unat (nbytes sb) = length (sink_content w) mod 2 ^ 64)"

text \<open>A write of \<open>p\<close> starts a new file: the sink is not open yet (the file is created),
  or the size test of \<^verbatim>\<open>Write\<close> asks for a rotation.\<close>

definition starts_new_file :: "world \<Rightarrow> string \<Rightarrow> bool" where
  "starts_new_file w p \<longleftrightarrow>
     (case file' w of None \<Rightarrow> True | Some sb \<Rightarrow> fileMaxSize w \<le> nbytes sb + of_nat (length p))"

text \<open>A sequence of writes to the sink, each under its own conditions; it stops when
  the process does.\<close>

fun Writes :: "(env \<times> string) list \<Rightarrow> world \<Rightarrow> (world, world) outcome" where
  "Writes [] w = Returned w"
| "Writes ((e, p) # rest) w =
     (case syncBuffer_Write e p w of
        Returned (n, w') \<Rightarrow> Writes rest w'
      | Exit c x \<Rightarrow> Exit c x
      | Panic \<Rightarrow> Panic)"

text \<open>
  The twenty public operations by level and call style, and for each style the stack
  frame whose location the header shows: \<^verbatim>\<open>printf\<close> asks \<^verbatim>\<open>header\<close> for depth 0,
  \<^verbatim>\<open>print\<close> goes through \<^verbatim>\<open>printDepth\<close> with depth 1, and \<^verbatim>\<open>header\<close> adds 3.
\<close>

datatype level = Debug_level | Info_level | Warning_level | Error_level | Fatal_level

datatype style = Print_style | Printf_style | PrintDepth_style int | PrintfDepth_style int

fun level_severity :: "level \<Rightarrow> Severity" where
  "level_severity Debug_level = DebugLog"
| "level_severity Info_level = InfoLog"
| "level_severity Warning_level = WarningLog"
| "level_severity Error_level = ErrorLog"
| "level_severity Fatal_level = FatalLog"

fun style_frame :: "style \<Rightarrow> int" where
  "style_frame Print_style = 3 + 1"
| "style_frame Printf_style = 3 + 0"
| "style_frame (PrintDepth_style depth) = 3 + depth"
| "style_frame (PrintfDepth_style depth) = 3 + depth"

fun emit :: "level \<Rightarrow> style \<Rightarrow> env \<Rightarrow> string \<Rightarrow> world \<Rightarrow> (world, world) outcome" where
  "emit Debug_level Print_style e msg w = Debug e msg w"
| "emit Info_level Print_style e msg w = Info e msg w"
| "emit Warning_level Print_style e msg w = Warning e msg w"
| "emit Error_level Print_style e msg w = Error e msg w"
| "emit Fatal_level Print_style e msg w = Fatal e msg w"
| "emit Debug_level Printf_style e msg w = Debugf e msg w"
| "emit Info_level Printf_style e msg w = Infof e msg w"
| "emit Warning_level Printf_style e msg w = Warningf e msg w"
| "emit Error_level Printf_style e msg w = Errorf e msg w"
| "emit Fatal_level Printf_style e msg w = Fatalf e msg w"
| "emit Debug_level (PrintDepth_style depth) e msg w = DebugDepth e depth msg w"
| "emit Info_level (PrintDepth_style depth) e msg w = InfoDepth e depth msg w"
| "emit Warning_level (PrintDepth_style depth) e msg w = WarningDepth e depth msg w"
| "emit Error_level (PrintDepth_style depth) e msg w = ErrorDepth e depth msg w"
| "emit Fatal_level (PrintDepth_style depth) e msg w = FatalDepth e depth msg w"
| "emit Debug_level (PrintfDepth_style depth) e msg w = DebugfDepth e depth msg w"
| "emit Info_level (PrintfDepth_style depth) e msg w = InfofDepth e depth msg w"
| "emit Warning_level (PrintfDepth_style depth) e msg w = WarningfDepth e depth msg w"
| "emit Error_level (PrintfDepth_style depth) e msg w = ErrorfDepth e depth msg w"
| "emit Fatal_level (PrintfDepth_style depth) e msg w = FatalfDepth e depth msg w"

section \<open>An example run\<close>

text \<open>The clock of the spec's example, a caller at \<open>demo.go:42\<close>, an operating system that
  does not fail, and a logger for \<open>app.log\<close> with a maximum size of 100 bytes that has
  not written yet.\<close>

definition example_clock :: Time where
  "example_clock = \<lparr>Year = 2024, Month = 3, Day = 7, Hour = 8, Minute = 9, Second = 5,
                     Nanosecond = 123000\<rparr>"

definition example_env :: env where
  "example_env = \<lparr>timeNow = example_clock, time_Now = example_clock,
                   Caller = (\<lambda>k. Some (''/src/app/demo.go'', 42)),
                   Create_error = None, Rename_error = None, Write_error = None\<rparr>"

definition example_world :: world where
  "example_world = \<lparr>logPath = ''app.log'', logLevel = InfoLog, fileMaxSize = 100, file' = None,
                     disk = Map.empty, stderr = [], pool = []\<rparr>"

text \<open>The same logger with its sink open: three bytes on disk, three in the writer.\<close>

definition example_open :: world where
  "example_open = example_world\<lparr>disk := [''app.log'' \<mapsto> ''old''],
       file' := Some \<lparr>Writer = \<lparr>wbuf = ''new'', werr = None\<rparr>, nbytes = 6\<rparr>\<rparr>"


chapter \<open>Properties\<close>

section \<open>The size string\<close>

lemma stringToInt_from_digits:
  "list_all is_digit ds \<Longrightarrow>
   stringToInt_from (word_of_nat a) ds =
     (word_of_nat (foldl (\<lambda>a c. a * 10 + (of_char c - of_char CHR ''0'')) a ds), False)"
proof (induction ds arbitrary: a)
  case Nil
  then show ?case by simp
next
  case (Cons c cs)
  from Cons.prems have d: "(48::nat) \<le> of_char c" "(of_char c :: nat) \<le> 57"
    by (simp_all add: is_digit_def)
  have i: "(of_char c :: int) = int (of_char c)" by (simp add: of_nat_of_char)
  have w: "(word_of_nat a :: uint64) * 10 + word_of_int (int (of_char c) - 48)
            = word_of_nat (a * 10 + (of_char c - 48))"
    using d by (simp add: of_nat_diff)
  have "\<not> (int (of_char c) - 48 > 9)" using d by simp
  with Cons w i show ?case by (simp add: Let_def del: of_nat_mult of_nat_add)
qed

lemma stringToInt_digits:
  "list_all is_digit ds \<Longrightarrow> stringToInt ds = (word_of_nat (numeral_value ds), False)"
  using stringToInt_from_digits [of ds 0] by (simp add: stringToInt_def numeral_value_def)

lemma unitConv_digits:
  assumes "list_all is_digit ds" and "is_size_unit u"
  shows "unitConv (ds @ [u]) = Returned (word_of_nat (numeral_value ds * unit_multiplier u))"
  using assms(2)
  by (auto simp: unitConv_def stringToInt_digits [OF assms(1)] is_size_unit_def unit_multiplier_def)

text \<open>A last byte that is no unit always ends in exit code 1, whatever precedes it.\<close>

lemma unitConv_bad_unit:
  "s \<noteq> [] \<Longrightarrow> \<not> is_size_unit (last s) \<Longrightarrow> unitConv s = Exit 1 (size_error s)"
  by (auto simp: unitConv_def is_size_unit_def split: prod.splits)

text \<open>A byte above \<open>'9'\<close> anywhere in the prefix is a parse error.\<close>

lemma stringToInt_from_above_nine:
  "\<exists>c \<in> set s. of_char c > (57 :: int) \<Longrightarrow> list_all (\<lambda>c. (48::int) \<le> of_char c) s
     \<Longrightarrow> snd (stringToInt_from n s)"
  by (induction s arbitrary: n) (auto simp: Let_def)

text \<open>
  C9 (amended). For a string of decimal digits followed by a unit, \<^verbatim>\<open>unitConv\<close> returns
  the numeral times 1024, 1024 * 1024 or 1024 * 1024 * 1024 reduced modulo \<open>2 ^ 64\<close>,
  which is the product itself whenever that is below \<open>2 ^ 64\<close>; \<open>10M\<close> gives 10485760 and \<open>1G\<close> gives 1073741824.
\<close>

theorem unitConv_scales_mod:
  "list_all is_digit ds \<and> is_size_unit u \<longrightarrow>
     (\<exists>r. unitConv (ds @ [u]) = Returned r
         \<and> unat r = (numeral_value ds * unit_multiplier u) mod 2 ^ 64
         \<and> (numeral_value ds * unit_multiplier u < 2 ^ 64
              \<longrightarrow> unat r = numeral_value ds * unit_multiplier u))
     \<and> unit_multiplier CHR ''K'' = 1024 \<and> unit_multiplier CHR ''k'' = 1024
     \<and> unit_multiplier CHR ''M'' = 1024 * 1024 \<and> unit_multiplier CHR ''m'' = 1024 * 1024
     \<and> unit_multiplier CHR ''G'' = 1024 * 1024 * 1024 \<and> unit_multiplier CHR ''g'' = 1024 * 1024 * 1024
     \<and> unitConv ''10M'' = Returned 10485760
     \<and> unitConv ''1G'' = Returned 1073741824"
proof (intro impI conjI)
  assume a: "list_all is_digit ds \<and> is_size_unit u"
  then have "unitConv (ds @ [u]) = Returned (word_of_nat (numeral_value ds * unit_multiplier u))"
    by (simp add: unitConv_digits)
  then show "\<exists>r. unitConv (ds @ [u]) = Returned r
         \<and> unat r = (numeral_value ds * unit_multiplier u) mod 2 ^ 64
         \<and> (numeral_value ds * unit_multiplier u < 2 ^ 64
              \<longrightarrow> unat r = numeral_value ds * unit_multiplier u)"
    by (simp add: unat_of_nat del: of_nat_mult)
qed (simp_all add: unitConv_def stringToInt_def unit_multiplier_def)

theorem unitConv_scales_mod_witness:
  "list_all is_digit ''3'' \<and> is_size_unit CHR ''k''
   \<and> (\<exists>r. unitConv ''3k'' = Returned r \<and> unat r = 3072)"
  using unitConv_scales_mod [of "''3''" "CHR ''k''"]
  by (simp add: is_digit_def is_size_unit_def numeral_value_def unit_multiplier_def)

text \<open>
  The claim as stated fails where the product passes \<open>2 ^ 64\<close>:
  17179869184 is \<open>2 ^ 34\<close>, so \<open>17179869184G\<close> denotes \<open>2 ^ 64\<close> bytes, and the code returns 0.
\<close>

theorem unitConv_exact_product_counterexample:
  "unitConv ''17179869184G'' = Returned 0
   \<and> list_all is_digit ''17179869184'' \<and> is_size_unit CHR ''G''
   \<and> numeral_value ''17179869184'' * (1024 * 1024 * 1024) = 18446744073709551616"
  by (simp add: unitConv_def stringToInt_def numeral_value_def is_digit_def is_size_unit_def)

text \<open>
  C10. On the empty size string \<^verbatim>\<open>unitConv\<close> panics on its slice bound, and so does
  \<^verbatim>\<open>NewLogger\<close>, which calls it first; neither reports a configuration error.
\<close>

theorem unitConv_empty_panics:
  "unitConv [] = Panic \<and> NewLogger path [] level flushInterval = Panic"
  by (simp add: unitConv_def NewLogger_def)

text \<open>
  C6. The claim asks for exit code 1 whenever the prefix holds a non-digit. The test
  \<^verbatim>\<open>ch > 9\<close> on the signed rune misses every character below \<open>'0'\<close>: \<open>1.5M\<close> is
  parsed as 85 megabytes and returned.
\<close>

theorem unitConv_accepts_characters_below_zero:
  "unitConv ''1.5M'' = Returned 89128960"
  by (simp add: unitConv_def stringToInt_def)

section \<open>The header formatter\<close>

lemma severityChar_at_clamped:
  assumes "0 \<le> sint s"
  shows "severityChar_at (if sint FatalLog < sint s then FatalLog else s) = Some (severity_letter s)"
proof (cases "sint FatalLog < sint s")
  case True
  then have "s \<noteq> DebugLog" "s \<noteq> InfoLog" "s \<noteq> WarningLog" "s \<noteq> ErrorLog"
    by (auto simp: FatalLog_def DebugLog_def InfoLog_def WarningLog_def ErrorLog_def)
  with True show ?thesis
    by (simp add: severityChar_at_def severityChar_def severity_letter_def FatalLog_def)
next
  case False
  with assms have "sint s \<in> {0, 1, 2, 3, 4}" by (auto simp: FatalLog_def)
  moreover have "s = word_of_int k" if "sint s = k" for k using that by auto
  ultimately have "s = word_of_int 0 \<or> s = word_of_int 1 \<or> s = word_of_int 2
      \<or> s = word_of_int 3 \<or> s = word_of_int 4" by blast
  then have "s = 0 \<or> s = 1 \<or> s = 2 \<or> s = 3 \<or> s = 4" by simp
  then show ?thesis
    by (auto simp: severityChar_at_def severityChar_def severity_letter_def FatalLog_def
        DebugLog_def InfoLog_def WarningLog_def ErrorLog_def)
qed

lemma digits_nth: "digits ! k = digit_char k"
  by (simp add: digits_def digit_char_def)

lemma smod_nonneg: "0 \<le> (d::int) \<Longrightarrow> d smod 10 = d mod 10"
  by (simp add: smod_int_alt_def sgn_if)

lemma sdiv_nonneg: "0 \<le> (d::int) \<Longrightarrow> d sdiv 10 = d div 10"
  by (simp add: signed_divide_int_def sgn_if)

lemma digits_at_low: "0 \<le> d \<Longrightarrow> digits_at (d smod 10) = Some (digit_char (nat d mod 10))"
proof -
  assume d: "0 \<le> d"
  have "nat (d mod 10) = nat d mod 10" using d by (simp add: nat_mod_distrib)
  moreover have "nat d mod 10 < 10" by simp
  moreover have "length digits = 10" by (simp add: digits_def)
  ultimately show ?thesis
    using d by (simp add: digits_at_def smod_nonneg digits_nth)
qed

lemma nat_div10: "0 \<le> d \<Longrightarrow> nat (d sdiv 10) = nat d div 10"
  by (simp add: sdiv_nonneg nat_div_distrib)

lemma zero_padded_zero: "zero_padded k 0 = replicate k CHR ''0''"
  by (induction k) (simp_all add: digit_char_def replicate_append_same)

lemma nDigits_pad_tmp:
  "i + k \<le> length (tmp b) \<Longrightarrow>
   nDigits_pad k i pad b = Some (b\<lparr>tmp := take i (tmp b) @ replicate k pad @ drop (i + k) (tmp b)\<rparr>)"
proof (induction k arbitrary: b)
  case 0
  then show ?case by simp
next
  case (Suc k)
  let ?b = "b\<lparr>tmp := (tmp b)[i + k := pad]\<rparr>"
  have s: "tmp_set (i + k) pad b = Some ?b" using Suc.prems by (simp add: tmp_set_def)
  have "nDigits_pad k i pad ?b = Some (?b\<lparr>tmp := take i (tmp ?b) @ replicate k pad @ drop (i + k) (tmp ?b)\<rparr>)"
    using Suc.prems by (intro Suc.IH) simp
  moreover have "drop (i + k) ((tmp b)[i + k := pad]) = pad # drop (Suc (i + k)) (tmp b)"
    using Suc.prems by (simp add: drop_update_cancel upd_conv_take_nth_drop)
  ultimately show ?case using s by (simp add: replicate_append_same)
qed

lemma nDigits_tmp:
  "i + n \<le> length (tmp b) \<Longrightarrow>
   nDigits n i d CHR ''0'' b =
     Some (b\<lparr>tmp := take i (tmp b) @ zero_padded n (nat d) @ drop (i + n) (tmp b)\<rparr>)"
proof (induction n arbitrary: d b)
  case 0
  then show ?case by (simp add: nDigits_def)
next
  case (Suc n)
  show ?case
  proof (cases "d > 0")
    case True
    let ?c = "digit_char (nat d mod 10)"
    let ?b = "b\<lparr>tmp := (tmp b)[i + n := ?c]\<rparr>"
    have c: "digits_at (d smod 10) = Some ?c" using True by (simp add: digits_at_low)
    have s: "tmp_set (i + n) ?c b = Some ?b" using Suc.prems by (simp add: tmp_set_def)
    have unfold: "nDigits (Suc n) i d CHR ''0'' b = nDigits n i (d sdiv 10) CHR ''0'' ?b"
      using True c s by (simp add: nDigits_def)
    have ih: "nDigits n i (d sdiv 10) CHR ''0'' ?b =
        Some (?b\<lparr>tmp := take i (tmp ?b) @ zero_padded n (nat (d sdiv 10)) @ drop (i + n) (tmp ?b)\<rparr>)"
      using Suc.prems by (intro Suc.IH) simp
    have dr: "drop (i + n) ((tmp b)[i + n := ?c]) = ?c # drop (Suc (i + n)) (tmp b)"
      using Suc.prems by (simp add: upd_conv_take_nth_drop)
    have "nat (d sdiv 10) = nat d div 10" using True by (simp add: nat_div10)
    with unfold ih dr show ?thesis by simp
  next
    case False
    then have "nat d = 0" by simp
    moreover have "nDigits (Suc n) i d CHR ''0'' b = nDigits_pad (Suc n) i CHR ''0'' b"
      using False by (simp add: nDigits_def)
    ultimately show ?thesis
      using nDigits_pad_tmp [OF Suc.prems, of "CHR ''0''"] by (simp only: zero_padded_zero)
  qed
qed

lemma tmp_set_prefix:
  assumes "i < length (tmp b)"
  shows "\<exists>b'. tmp_set i c b = Some b' \<and> Buffer b' = Buffer b \<and> length (tmp b') = length (tmp b)
           \<and> take (Suc i) (tmp b') = take i (tmp b) @ [c]"
  using assms by (simp add: tmp_set_def take_Suc_conv_app_nth)

lemma twoDigits_prefix:
  assumes "i + 2 \<le> length (tmp b)" and "0 \<le> d"
  shows "\<exists>b'. twoDigits i d b = Some b' \<and> Buffer b' = Buffer b \<and> length (tmp b') = length (tmp b)
           \<and> take (i + 2) (tmp b') = take i (tmp b) @ zero_padded 2 (nat d)"
proof -
  let ?c1 = "digit_char (nat d mod 10)"
  let ?c0 = "digit_char (nat d div 10 mod 10)"
  have c1: "digits_at (d smod 10) = Some ?c1" using assms by (simp add: digits_at_low)
  have "0 \<le> d sdiv 10" using assms by (simp add: sdiv_nonneg)
  then have c0: "digits_at ((d sdiv 10) smod 10) = Some ?c0"
    using assms by (simp add: digits_at_low nat_div10)
  have "take (Suc (Suc i)) ((tmp b)[Suc i := ?c1, i := ?c0]) = take i (tmp b) @ [?c0, ?c1]"
    using assms(1) by (simp add: take_Suc_conv_app_nth)
  then show ?thesis
    using assms c1 c0 by (simp add: twoDigits_def tmp_set_def numeral_2_eq_2)
qed

lemma nDigits_prefix:
  assumes "i + n \<le> length (tmp b)"
  shows "\<exists>b'. nDigits n i d CHR ''0'' b = Some b' \<and> Buffer b' = Buffer b
           \<and> length (tmp b') = length (tmp b)
           \<and> take (i + n) (tmp b') = take i (tmp b) @ zero_padded n (nat d)"
proof -
  have "length (zero_padded n m) = n" for m by (induction n arbitrary: m) simp_all
  then show ?thesis using assms by (simp add: nDigits_tmp)
qed

lemma decimal_length_pos: "0 < length (decimal n)"
  by (subst decimal.simps) simp

lemma someDigits_loop_tmp:
  "0 \<le> d \<Longrightarrow> length (decimal (nat d)) \<le> j \<Longrightarrow> j \<le> length (tmp b) \<Longrightarrow>
   someDigits_loop j d b =
     Some (j - length (decimal (nat d)),
           b\<lparr>tmp := take (j - length (decimal (nat d))) (tmp b) @ decimal (nat d) @ drop j (tmp b)\<rparr>)"
proof (induction "nat d" arbitrary: d j b rule: less_induct)
  case less
  from less.prems decimal_length_pos [of "nat d"] obtain j' where j: "j = Suc j'"
    by (cases j) auto
  let ?c = "digit_char (nat d mod 10)"
  let ?b = "b\<lparr>tmp := (tmp b)[j' := ?c]\<rparr>"
  have c: "digits_at (d smod 10) = Some ?c" using less.prems by (simp add: digits_at_low)
  have s: "tmp_set j' ?c b = Some ?b" using less.prems j by (simp add: tmp_set_def)
  show ?case
  proof (cases "nat d < 10")
    case True
    then have "d sdiv 10 = 0" using less.prems by (simp add: sdiv_nonneg)
    moreover have "decimal (nat d) = [?c]" using True by (subst decimal.simps) simp
    moreover have "(tmp b)[j' := ?c] = take j' (tmp b) @ [?c] @ drop (Suc j') (tmp b)"
      using less.prems j by (simp add: upd_conv_take_nth_drop)
    ultimately show ?thesis using c s j by simp
  next
    case False
    then have nz: "d sdiv 10 \<noteq> 0" using less.prems by (simp add: sdiv_nonneg)
    have dec: "decimal (nat d) = decimal (nat d div 10) @ [?c]"
      using False by (subst decimal.simps) simp
    have n10: "nat (d sdiv 10) = nat d div 10" using less.prems by (simp add: nat_div10)
    have lt: "nat (d sdiv 10) < nat d" using False n10 by simp
    have nn: "0 \<le> d sdiv 10" using less.prems by (simp add: sdiv_nonneg)
    have len: "length (decimal (nat (d sdiv 10))) \<le> j'"
      using less.prems j dec n10 by simp
    have ih: "someDigits_loop j' (d sdiv 10) ?b =
       Some (j' - length (decimal (nat (d sdiv 10))),
           ?b\<lparr>tmp := take (j' - length (decimal (nat (d sdiv 10)))) (tmp ?b)
                    @ decimal (nat (d sdiv 10)) @ drop j' (tmp ?b)\<rparr>)"
      using less.prems j by (intro less.hyps [OF lt nn len]) simp
    have dr: "drop j' ((tmp b)[j' := ?c]) = ?c # drop (Suc j') (tmp b)"
      using less.prems j by (simp add: upd_conv_take_nth_drop)
    show ?thesis
      using c s nz ih dr j by (simp add: dec n10)
  qed
qed

lemma someDigits_tmp:
  assumes "0 \<le> d" and "length (decimal (nat d)) < length (tmp b)"
  shows "\<exists>b'. someDigits 1 d b = Some (length (decimal (nat d)), b')
           \<and> Buffer b' = Buffer b \<and> length (tmp b') = length (tmp b)
           \<and> take (Suc (length (decimal (nat d)))) (tmp b') = take 1 (tmp b) @ decimal (nat d)"
proof -
  let ?L = "length (decimal (nat d))"
  let ?N = "length (tmp b)"
  let ?b1 = "b\<lparr>tmp := take (?N - ?L) (tmp b) @ decimal (nat d) @ drop ?N (tmp b)\<rparr>"
  let ?b2 = "?b1\<lparr>tmp := take 1 (tmp ?b1) @ take ?L (drop (?N - ?L) (tmp ?b1)) @ drop (1 + ?L) (tmp ?b1)\<rparr>"
  have loop: "someDigits_loop ?N d b = Some (?N - ?L, ?b1)"
    using assms by (intro someDigits_loop_tmp) simp_all
  have len1: "length (tmp ?b1) = ?N" using assms by simp
  have n: "min (?N - 1) (?N - (?N - ?L)) = ?L" using assms by simp
  have run: "someDigits 1 d b = Some (?L, ?b2)"
    unfolding someDigits_def loop using assms decimal_length_pos [of "nat d"]
    by (simp only: len1 n Let_def) auto
  have src: "take ?L (drop (?N - ?L) (tmp ?b1)) = decimal (nat d)" using assms by simp
  have pos: "0 < ?N" using assms(2) by linarith
  then have ne: "tmp b \<noteq> []" by auto
  have t1: "take 1 (tmp ?b1) = take 1 (tmp b)"
    using assms ne decimal_length_pos [of "nat d"] by simp
  have tmp2: "tmp ?b2 = take 1 (tmp b) @ decimal (nat d) @ drop (1 + ?L) (tmp ?b1)"
    using src t1 by simp
  have l1: "length (take 1 (tmp b)) = 1" using pos by (cases "tmp b") simp_all
  have "length (tmp ?b2) = 1 + (?L + (?N - (1 + ?L)))"
    unfolding tmp2 by (simp only: length_append l1 length_drop len1)
  then have "length (tmp ?b2) = ?N" using assms(2) by linarith
  moreover have "take (Suc ?L) (tmp ?b2) = take 1 (tmp b) @ decimal (nat d)"
    unfolding tmp2 using l1 by (simp del: One_nat_def)
  moreover have "Buffer ?b2 = Buffer b" by simp
  ultimately show ?thesis using run by blast
qed


lemma getBuffer_ok:
  assumes "pool_ok pl"
  shows "Buffer (fst (getBuffer pl)) = []" and "length (tmp (fst (getBuffer pl))) = 29"
    and "pool_ok (snd (getBuffer pl))"
  using assms by (auto simp: getBuffer_def pool_ok_def new_buffer_def split: list.splits)

lemma decimal_length_le: "0 < k \<Longrightarrow> n < 10 ^ k \<Longrightarrow> length (decimal n) \<le> k"
proof (induction k arbitrary: n)
  case 0
  then show ?case by simp
next
  case (Suc k)
  show ?case
  proof (cases "n < 10")
    case True
    then show ?thesis by (subst decimal.simps) simp
  next
    case False
    then have "0 < k" using Suc.prems by (cases k) auto
    moreover have "n div 10 < 10 ^ k" using Suc.prems by (simp add: less_mult_imp_div_less mult.commute)
    ultimately have "length (decimal (n div 10)) \<le> k" by (rule Suc.IH)
    then show ?thesis using False by (subst decimal.simps) simp
  qed
qed

lemma formatHeader_text:
  assumes sev: "0 \<le> sint s"
    and now: "valid_Time now"
    and line: "0 \<le> line" "line < 2 ^ 63"
    and pool: "pool_ok pl"
  shows "\<exists>b. formatHeader now s fl line pl = Some (b, snd (getBuffer pl))
           \<and> Buffer b = header_text s now fl line \<and> length (tmp b) = 29"
proof -
  obtain buf pl' where g: "getBuffer pl = (buf, pl')" by (cases "getBuffer pl")
  from getBuffer_ok [OF pool] g have buf: "Buffer buf = []" "length (tmp buf) = 29" by simp_all
  let ?c = "severity_letter s"
  have c: "severityChar_at (if sint FatalLog < sint s then FatalLog else s) = Some ?c"
    using sev by (rule severityChar_at_clamped)
  from now have t: "0 \<le> Month now" "0 \<le> Day now" "0 \<le> Hour now" "0 \<le> Minute now"
    "0 \<le> Second now" "0 \<le> Nanosecond now"
    by (simp_all add: valid_Time_def)
  have micro: "nat (Nanosecond now sdiv 1000) = nat (Nanosecond now) div 1000"
    using t by (simp add: signed_divide_int_def sgn_if nat_div_distrib)
  obtain b1 where b1: "tmp_set 0 ?c buf = Some b1" "Buffer b1 = []" "length (tmp b1) = 29"
      "take 1 (tmp b1) = [?c]"
    using tmp_set_prefix [of 0 buf ?c] buf by auto
  obtain b2 where b2: "nDigits 4 1 (Year now) CHR ''0'' b1 = Some b2" "Buffer b2 = []"
      "length (tmp b2) = 29" "take 5 (tmp b2) = [?c] @ zero_padded 4 (nat (Year now))"
    using nDigits_prefix [of 1 4 b1 "Year now"] b1 by auto
  obtain b3 where b3: "tmp_set 5 CHR ''-'' b2 = Some b3" "Buffer b3 = []" "length (tmp b3) = 29"
      "take 6 (tmp b3) = [?c] @ zero_padded 4 (nat (Year now)) @ ''-''"
    using tmp_set_prefix [of 5 b2 "CHR ''-''"] b2 by auto
  obtain b4 where b4: "twoDigits 6 (Month now) b3 = Some b4" "Buffer b4 = []" "length (tmp b4) = 29"
      "take 8 (tmp b4) = [?c] @ zero_padded 4 (nat (Year now)) @ ''-'' @ zero_padded 2 (nat (Month now))"
    using twoDigits_prefix [of 6 b3 "Month now"] b3 t by auto
  obtain b5 where b5: "tmp_set 8 CHR ''-'' b4 = Some b5" "Buffer b5 = []" "length (tmp b5) = 29"
      "take 9 (tmp b5) = [?c] @ zero_padded 4 (nat (Year now)) @ ''-'' @ zero_padded 2 (nat (Month now)) @ ''-''"
    using tmp_set_prefix [of 8 b4 "CHR ''-''"] b4 by auto
  obtain b6 where b6: "twoDigits 9 (Day now) b5 = Some b6" "Buffer b6 = []" "length (tmp b6) = 29"
      "take 11 (tmp b6) = [?c] @ zero_padded 4 (nat (Year now)) @ ''-'' @ zero_padded 2 (nat (Month now)) @ ''-''
         @ zero_padded 2 (nat (Day now))"
    using twoDigits_prefix [of 9 b5 "Day now"] b5 t by auto
  obtain b7 where b7: "tmp_set 11 CHR '' '' b6 = Some b7" "Buffer b7 = []" "length (tmp b7) = 29"
      "take 12 (tmp b7) = [?c] @ zero_padded 4 (nat (Year now)) @ ''-'' @ zero_padded 2 (nat (Month now)) @ ''-''
         @ zero_padded 2 (nat (Day now)) @ '' ''"
    using tmp_set_prefix [of 11 b6 "CHR '' ''"] b6 by auto
  obtain b8 where b8: "twoDigits 12 (Hour now) b7 = Some b8" "Buffer b8 = []" "length (tmp b8) = 29"
      "take 14 (tmp b8) = [?c] @ zero_padded 4 (nat (Year now)) @ ''-'' @ zero_padded 2 (nat (Month now)) @ ''-''
         @ zero_padded 2 (nat (Day now)) @ '' '' @ zero_padded 2 (nat (Hour now))"
    using twoDigits_prefix [of 12 b7 "Hour now"] b7 t by auto
  obtain b9 where b9: "tmp_set 14 CHR '':'' b8 = Some b9" "Buffer b9 = []" "length (tmp b9) = 29"
      "take 15 (tmp b9) = [?c] @ zero_padded 4 (nat (Year now)) @ ''-'' @ zero_padded 2 (nat (Month now)) @ ''-''
         @ zero_padded 2 (nat (Day now)) @ '' '' @ zero_padded 2 (nat (Hour now)) @ '':''"
    using tmp_set_prefix [of 14 b8 "CHR '':''"] b8 by auto
  obtain b10 where b10: "twoDigits 15 (Minute now) b9 = Some b10" "Buffer b10 = []" "length (tmp b10) = 29"
      "take 17 (tmp b10) = [?c] @ zero_padded 4 (nat (Year now)) @ ''-'' @ zero_padded 2 (nat (Month now)) @ ''-''
         @ zero_padded 2 (nat (Day now)) @ '' '' @ zero_padded 2 (nat (Hour now)) @ '':''
         @ zero_padded 2 (nat (Minute now))"
    using twoDigits_prefix [of 15 b9 "Minute now"] b9 t by auto
  obtain b11 where b11: "tmp_set 17 CHR '':'' b10 = Some b11" "Buffer b11 = []" "length (tmp b11) = 29"
      "take 18 (tmp b11) = [?c] @ zero_padded 4 (nat (Year now)) @ ''-'' @ zero_padded 2 (nat (Month now)) @ ''-''
         @ zero_padded 2 (nat (Day now)) @ '' '' @ zero_padded 2 (nat (Hour now)) @ '':''
         @ zero_padded 2 (nat (Minute now)) @ '':''"
    using tmp_set_prefix [of 17 b10 "CHR '':''"] b10 by auto
  obtain b12 where b12: "twoDigits 18 (Second now) b11 = Some b12" "Buffer b12 = []" "length (tmp b12) = 29"
      "take 20 (tmp b12) = [?c] @ zero_padded 4 (nat (Year now)) @ ''-'' @ zero_padded 2 (nat (Month now)) @ ''-''
         @ zero_padded 2 (nat (Day now)) @ '' '' @ zero_padded 2 (nat (Hour now)) @ '':''
         @ zero_padded 2 (nat (Minute now)) @ '':'' @ zero_padded 2 (nat (Second now))"
    using twoDigits_prefix [of 18 b11 "Second now"] b11 t by auto
  obtain b13 where b13: "tmp_set 20 CHR ''.'' b12 = Some b13" "Buffer b13 = []" "length (tmp b13) = 29"
      "take 21 (tmp b13) = [?c] @ zero_padded 4 (nat (Year now)) @ ''-'' @ zero_padded 2 (nat (Month now)) @ ''-''
         @ zero_padded 2 (nat (Day now)) @ '' '' @ zero_padded 2 (nat (Hour now)) @ '':''
         @ zero_padded 2 (nat (Minute now)) @ '':'' @ zero_padded 2 (nat (Second now)) @ ''.''"
    using tmp_set_prefix [of 20 b12 "CHR ''.''"] b12 by auto
  obtain b14 where b14: "nDigits 6 21 (Nanosecond now sdiv 1000) CHR ''0'' b13 = Some b14"
      "Buffer b14 = []" "length (tmp b14) = 29"
      "take 27 (tmp b14) = [?c] @ zero_padded 4 (nat (Year now)) @ ''-'' @ zero_padded 2 (nat (Month now)) @ ''-''
         @ zero_padded 2 (nat (Day now)) @ '' '' @ zero_padded 2 (nat (Hour now)) @ '':''
         @ zero_padded 2 (nat (Minute now)) @ '':'' @ zero_padded 2 (nat (Second now)) @ ''.''
         @ zero_padded 6 (nat (Nanosecond now) div 1000)"
    using nDigits_prefix [of 21 6 b13 "Nanosecond now sdiv 1000"] b13 micro by auto
  obtain b15 where b15: "tmp_set 27 CHR '' '' b14 = Some b15" "Buffer b15 = []" "length (tmp b15) = 29"
      "take 28 (tmp b15) = [?c] @ zero_padded 4 (nat (Year now)) @ ''-'' @ zero_padded 2 (nat (Month now)) @ ''-''
         @ zero_padded 2 (nat (Day now)) @ '' '' @ zero_padded 2 (nat (Hour now)) @ '':''
         @ zero_padded 2 (nat (Minute now)) @ '':'' @ zero_padded 2 (nat (Second now)) @ ''.''
         @ zero_padded 6 (nat (Nanosecond now) div 1000) @ '' ''"
    using tmp_set_prefix [of 27 b14 "CHR '' ''"] b14 by auto
  let ?h = "take 28 (tmp b15) @ fl"
  let ?b16 = "buffer_Write fl (buffer_Write (take 28 (tmp b15)) b15)"
  have b16: "Buffer ?b16 = ?h" "length (tmp ?b16) = 29"
    using b15 by (simp_all add: buffer_Write_def)
  obtain b17 where b17: "tmp_set 0 CHR '':'' ?b16 = Some b17" "Buffer b17 = ?h" "length (tmp b17) = 29"
      "take 1 (tmp b17) = '':''"
    using tmp_set_prefix [of 0 ?b16 "CHR '':''"] b16 by auto
  let ?n = "length (decimal (nat line))"
  have "nat line < 10 ^ 19" using line by simp
  then have n: "?n \<le> 19" by (intro decimal_length_le) simp_all
  obtain b18 where b18: "someDigits 1 line b17 = Some (?n, b18)" "Buffer b18 = ?h" "length (tmp b18) = 29"
      "take (Suc ?n) (tmp b18) = '':'' @ decimal (nat line)"
    using someDigits_tmp [of line b17] b17 line n by auto
  obtain b19 where b19: "tmp_set (?n + 1) CHR '']'' b18 = Some b19" "Buffer b19 = ?h" "length (tmp b19) = 29"
      "take (?n + 2) (tmp b19) = '':'' @ decimal (nat line) @ '']''"
    using tmp_set_prefix [of "?n + 1" b18 "CHR '']''"] b18 n by auto
  obtain b20 where b20: "tmp_set (?n + 2) CHR '' '' b19 = Some b20" "Buffer b20 = ?h" "length (tmp b20) = 29"
      "take (?n + 3) (tmp b20) = '':'' @ decimal (nat line) @ ''] ''"
    using tmp_set_prefix [of "?n + 2" b19 "CHR '' ''"] b19 n by (auto simp: numeral_3_eq_3)
  let ?b21 = "buffer_Write (take (?n + 3) (tmp b20)) b20"
  have cond: "(line < 0) = False"
      "(28 \<le> length (tmp b15)) = True" "(?n + 3 \<le> length (tmp b20)) = True"
    using line(1) n b15 b20 by simp_all
  have run: "formatHeader now s fl line pl = Some (?b21, pl')"
    by (simp only: formatHeader_def Let_def cond if_False if_True g prod.case c
          b1(1) b2(1) b3(1) b4(1) b5(1) b6(1) b7(1) b8(1) b9(1) b10(1) b11(1) b12(1) b13(1)
          b14(1) b15(1) b17(1) b18(1) b19(1) b20(1) Option.bind.simps)
  have "Buffer ?b21 = header_text s now fl line"
    by (simp add: buffer_Write_def b20 b15 header_text_def)
  moreover have "length (tmp ?b21) = 29" by (simp add: buffer_Write_def b20)
  ultimately show ?thesis using run g by simp
qed

subsection \<open>The two renderings denote the number\<close>

lemma of_char_digit_char: "k < 10 \<Longrightarrow> (of_char (digit_char k) :: nat) = 48 + k"
proof -
  assume "k < 10"
  then have "k \<in> {0, 1, 2, 3, 4, 5, 6, 7, 8, 9}" by auto
  then show ?thesis by (auto simp: digit_char_def)
qed

lemma is_digit_digit_char: "k < 10 \<Longrightarrow> is_digit (digit_char k)"
  by (simp add: is_digit_def of_char_digit_char)

lemma numeral_value_snoc:
  "numeral_value (ds @ [c]) = numeral_value ds * 10 + (of_char c - 48)"
  by (simp add: numeral_value_def)

lemma length_zero_padded: "length (zero_padded k n) = k"
  by (induction k arbitrary: n) simp_all

lemma zero_padded_digits: "list_all is_digit (zero_padded k n)"
  by (induction k arbitrary: n) (simp_all add: is_digit_digit_char)

lemma numeral_value_zero_padded: "numeral_value (zero_padded k n) = n mod 10 ^ k"
proof (induction k arbitrary: n)
  case 0
  then show ?case by (simp add: numeral_value_def)
next
  case (Suc k)
  have "n mod 10 ^ Suc k = (n div 10) mod 10 ^ k * 10 + n mod 10"
    by (simp add: mod_mult2_eq mult.commute)
  then show ?case by (simp add: numeral_value_snoc Suc.IH of_char_digit_char)
qed

lemma decimal_digits: "list_all is_digit (decimal n)"
  by (induction n rule: decimal.induct) (subst decimal.simps, simp add: is_digit_digit_char)

lemma numeral_value_decimal: "numeral_value (decimal n) = n"
proof (induction n rule: decimal.induct)
  case (1 n)
  show ?case
  proof (cases "n < 10")
    case True
    then show ?thesis
      by (subst decimal.simps) (simp add: numeral_value_def of_char_digit_char)
  next
    case False
    with 1 show ?thesis
      by (subst decimal.simps) (simp add: numeral_value_snoc of_char_digit_char)
  qed
qed

lemma decimal_no_leading_zero: "0 < n \<Longrightarrow> hd (decimal n) \<noteq> CHR ''0''"
proof (induction n rule: decimal.induct)
  case (1 n)
  show ?case
  proof (cases "n < 10")
    case True
    with "1.prems" have "n \<in> {1, 2, 3, 4, 5, 6, 7, 8, 9}" by auto
    then show ?thesis by (subst decimal.simps) (auto simp: digit_char_def)
  next
    case False
    then have "0 < n div 10" by simp
    with 1 False have "hd (decimal (n div 10)) \<noteq> CHR ''0''" by simp
    moreover have "decimal (n div 10) \<noteq> []" using decimal_length_pos [of "n div 10"] by auto
    ultimately show ?thesis using False by (subst decimal.simps) simp
  qed
qed

lemma zero_padded_numeral:
  "zero_padded (numeral k) n = zero_padded (pred_numeral k) (n div 10) @ [digit_char (n mod 10)]"
proof -
  have "zero_padded (Suc (pred_numeral k)) n
      = zero_padded (pred_numeral k) (n div 10) @ [digit_char (n mod 10)]"
    by simp
  then show ?thesis by (simp only: numeral_eq_Suc [symmetric])
qed

text \<open>
  C3. For each of the five severities, every clock reading and every caller location,
  \<^verbatim>\<open>formatHeader\<close> leaves in its buffer exactly the severity character, the year in
  four digits, month, day, hour, minute and second in two, the microseconds in six, the
  file, a colon, the line in minimal-width decimal and \<open>] \<close>; for 2024-03-07
  08:09:05.000123, \<open>demo.go\<close>, line 42 and Info that is
  \<open>I2024-03-07 08:09:05.000123 demo.go:42] \<close>. The buffer may come from the pool with
  any scratch bytes. A padded field has exactly its width in digits and denotes the
  number whenever the number fits the width; the line is digits without a leading zero
  and denotes the line.
\<close>

theorem formatHeader_layout:
  "(s \<in> {DebugLog, InfoLog, WarningLog, ErrorLog, FatalLog} \<and> valid_Time now
      \<and> 0 \<le> line \<and> line < 2 ^ 63 \<and> pool_ok pl
     \<longrightarrow> map_option (\<lambda>r. Buffer (fst r)) (formatHeader now s fl line pl)
           = Some ([severity_letter s] @ zero_padded 4 (nat (Year now)) @ ''-''
                @ zero_padded 2 (nat (Month now)) @ ''-'' @ zero_padded 2 (nat (Day now)) @ '' ''
                @ zero_padded 2 (nat (Hour now)) @ '':'' @ zero_padded 2 (nat (Minute now)) @ '':''
                @ zero_padded 2 (nat (Second now)) @ ''.''
                @ zero_padded 6 (nat (Nanosecond now) div 1000) @ '' ''
                @ fl @ '':'' @ decimal (nat line) @ ''] '')
         \<and> severity_letter s \<in> set ''DIWEF'')
   \<and> (pool_ok pl
     \<longrightarrow> map_option (\<lambda>r. Buffer (fst r))
           (formatHeader \<lparr>Year = 2024, Month = 3, Day = 7, Hour = 8, Minute = 9, Second = 5,
                          Nanosecond = 123000\<rparr> InfoLog ''demo.go'' 42 pl)
         = Some ''I2024-03-07 08:09:05.000123 demo.go:42] '')
   \<and> length (zero_padded k n) = k \<and> list_all is_digit (zero_padded k n)
   \<and> (n < 10 ^ k \<longrightarrow> numeral_value (zero_padded k n) = n)
   \<and> list_all is_digit (decimal n) \<and> numeral_value (decimal n) = n
   \<and> (0 < n \<longrightarrow> hd (decimal n) \<noteq> CHR ''0'')"
proof (intro conjI impI)
  assume a: "s \<in> {DebugLog, InfoLog, WarningLog, ErrorLog, FatalLog} \<and> valid_Time now
      \<and> 0 \<le> line \<and> line < 2 ^ 63 \<and> pool_ok pl"
  then have "0 \<le> sint s"
    by (auto simp: DebugLog_def InfoLog_def WarningLog_def ErrorLog_def FatalLog_def)
  with a obtain b where "formatHeader now s fl line pl = Some (b, snd (getBuffer pl))"
      "Buffer b = header_text s now fl line"
    using formatHeader_text [of s now line pl fl] by blast
  then show "map_option (\<lambda>r. Buffer (fst r)) (formatHeader now s fl line pl)
           = Some ([severity_letter s] @ zero_padded 4 (nat (Year now)) @ ''-''
                @ zero_padded 2 (nat (Month now)) @ ''-'' @ zero_padded 2 (nat (Day now)) @ '' ''
                @ zero_padded 2 (nat (Hour now)) @ '':'' @ zero_padded 2 (nat (Minute now)) @ '':''
                @ zero_padded 2 (nat (Second now)) @ ''.''
                @ zero_padded 6 (nat (Nanosecond now) div 1000) @ '' ''
                @ fl @ '':'' @ decimal (nat line) @ ''] '')"
    by (simp add: header_text_def)
  show "severity_letter s \<in> set ''DIWEF''" by (simp add: severity_letter_def)
next
  let ?t = "\<lparr>Year = 2024, Month = 3, Day = 7, Hour = 8, Minute = 9, Second = 5,
             Nanosecond = 123000\<rparr>"
  assume p: "pool_ok pl"
  have "0 \<le> sint InfoLog" by (simp add: InfoLog_def)
  moreover have "valid_Time ?t" by (simp add: valid_Time_def)
  ultimately obtain b where "formatHeader ?t InfoLog ''demo.go'' 42 pl = Some (b, snd (getBuffer pl))"
      "Buffer b = header_text InfoLog ?t ''demo.go'' 42"
    using formatHeader_text [of InfoLog ?t 42 pl "''demo.go''"] p by auto
  moreover have "zero_padded 4 2024 = ''2024'' \<and> zero_padded 2 3 = ''03'' \<and> zero_padded 2 7 = ''07''
      \<and> zero_padded 2 8 = ''08'' \<and> zero_padded 2 9 = ''09'' \<and> zero_padded 2 5 = ''05''
      \<and> zero_padded 6 123 = ''000123'' \<and> decimal 42 = ''42''"
    by (simp add: zero_padded_numeral decimal.simps digit_char_def)
  then have "header_text InfoLog ?t ''demo.go'' 42 = ''I2024-03-07 08:09:05.000123 demo.go:42] ''"
    by (simp add: header_text_def severity_letter_def InfoLog_def DebugLog_def)
  ultimately show "map_option (\<lambda>r. Buffer (fst r)) (formatHeader ?t InfoLog ''demo.go'' 42 pl)
         = Some ''I2024-03-07 08:09:05.000123 demo.go:42] ''"
    by simp
next
  show "length (zero_padded k n) = k" by (rule length_zero_padded)
  show "list_all is_digit (zero_padded k n)" by (rule zero_padded_digits)
  show "list_all is_digit (decimal n)" by (rule decimal_digits)
  show "numeral_value (decimal n) = n" by (rule numeral_value_decimal)
next
  assume "n < 10 ^ k"
  then show "numeral_value (zero_padded k n) = n" by (simp add: numeral_value_zero_padded)
next
  assume "0 < n"
  then show "hd (decimal n) \<noteq> CHR ''0''" by (rule decimal_no_leading_zero)
qed

theorem formatHeader_layout_witness:
  "WarningLog \<in> {DebugLog, InfoLog, WarningLog, ErrorLog, FatalLog}
   \<and> valid_Time \<lparr>Year = 1999, Month = 12, Day = 31, Hour = 23, Minute = 59, Second = 58,
                  Nanosecond = 999999999\<rparr>
   \<and> (0::int) \<le> 7 \<and> (7::int) < 2 ^ 63 \<and> pool_ok [\<lparr>Buffer = [], tmp = replicate 29 CHR ''x''\<rparr>]
   \<and> map_option (\<lambda>r. Buffer (fst r))
        (formatHeader \<lparr>Year = 1999, Month = 12, Day = 31, Hour = 23, Minute = 59, Second = 58,
                       Nanosecond = 999999999\<rparr> WarningLog ''a.go'' 7
           [\<lparr>Buffer = [], tmp = replicate 29 CHR ''x''\<rparr>])
      = Some ''W1999-12-31 23:59:58.999999 a.go:7] ''"
proof -
  let ?t = "\<lparr>Year = 1999, Month = 12, Day = 31, Hour = 23, Minute = 59, Second = 58,
             Nanosecond = 999999999\<rparr>"
  let ?pl = "[\<lparr>Buffer = [], tmp = replicate 29 CHR ''x''\<rparr>]"
  have h: "WarningLog \<in> {DebugLog, InfoLog, WarningLog, ErrorLog, FatalLog}" "valid_Time ?t"
      "(0::int) \<le> 7" "(7::int) < 2 ^ 63" "pool_ok ?pl"
    by (simp_all add: valid_Time_def pool_ok_def)
  have r: "zero_padded 4 1999 = ''1999'' \<and> zero_padded 2 12 = ''12'' \<and> zero_padded 2 31 = ''31''
      \<and> zero_padded 2 23 = ''23'' \<and> zero_padded 2 59 = ''59'' \<and> zero_padded 2 58 = ''58''
      \<and> zero_padded 6 999999 = ''999999'' \<and> decimal 7 = ''7''"
    by (simp add: zero_padded_numeral decimal.simps digit_char_def)
  have hyps: "WarningLog \<in> {DebugLog, InfoLog, WarningLog, ErrorLog, FatalLog} \<and> valid_Time ?t
      \<and> (0::int) \<le> 7 \<and> (7::int) < 2 ^ 63 \<and> pool_ok ?pl"
    using h by (intro conjI)
  have c: "map_option (\<lambda>r. Buffer (fst r)) (formatHeader ?t WarningLog ''a.go'' 7 ?pl)
      = Some ([severity_letter WarningLog] @ zero_padded 4 (nat (Year ?t)) @ ''-''
                @ zero_padded 2 (nat (Month ?t)) @ ''-'' @ zero_padded 2 (nat (Day ?t)) @ '' ''
                @ zero_padded 2 (nat (Hour ?t)) @ '':'' @ zero_padded 2 (nat (Minute ?t)) @ '':''
                @ zero_padded 2 (nat (Second ?t)) @ ''.''
                @ zero_padded 6 (nat (Nanosecond ?t) div 1000) @ '' ''
                @ ''a.go'' @ '':'' @ decimal (nat 7) @ ''] '')"
    using formatHeader_layout [of WarningLog ?t 7 ?pl "''a.go''"] hyps by blast
  have "map_option (\<lambda>r. Buffer (fst r)) (formatHeader ?t WarningLog ''a.go'' 7 ?pl)
      = Some ''W1999-12-31 23:59:58.999999 a.go:7] ''"
    unfolding c using r by (simp add: severity_letter_def WarningLog_def DebugLog_def InfoLog_def)
  with hyps show ?thesis by blast
qed

section \<open>The buffered writer\<close>

lemma take_min_length: "take (min a (length p)) p = take a p"
  by (simp add: min_def)

lemma file_Write_content:
  "file_Write e path p d = (n, er, d') \<Longrightarrow>
     file_content d' path = file_content d path @ take n p \<and> n \<le> length p
     \<and> (\<forall>x. x \<noteq> path \<longrightarrow> d' x = d x) \<and> d' path \<noteq> None
     \<and> (er = None \<longrightarrow> n = length p) \<and> (Write_error e = None \<longrightarrow> er = None)"
  by (auto simp: file_Write_def file_content_def take_min_length split: option.splits)

lemma bufio_Flush_content:
  assumes "bufio_Flush e path b d = (b', d')"
  shows "file_content d' path @ wbuf b' = file_content d path @ wbuf b"
    and "\<forall>x. x \<noteq> path \<longrightarrow> d' x = d x"
    and "d path \<noteq> None \<longrightarrow> d' path \<noteq> None"
    and "werr b' = None \<longrightarrow> wbuf b' = []"
    and "Write_error e = None \<and> werr b = None \<longrightarrow> werr b' = None"
proof -
  obtain n er d1 where fw: "file_Write e path (wbuf b) d = (n, er, d1)"
    by (cases "file_Write e path (wbuf b) d") auto
  note c = file_Write_content [OF fw]
  show "file_content d' path @ wbuf b' = file_content d path @ wbuf b"
    using assms fw c by (auto simp: bufio_Flush_def split: if_splits option.splits)
  show "\<forall>x. x \<noteq> path \<longrightarrow> d' x = d x"
    using assms fw c by (auto simp: bufio_Flush_def split: if_splits option.splits)
  show "d path \<noteq> None \<longrightarrow> d' path \<noteq> None"
    using assms fw c by (auto simp: bufio_Flush_def split: if_splits option.splits)
  show "werr b' = None \<longrightarrow> wbuf b' = []"
    using assms fw c by (auto simp: bufio_Flush_def split: if_splits option.splits)
  show "Write_error e = None \<and> werr b = None \<longrightarrow> werr b' = None"
    using assms fw c by (auto simp: bufio_Flush_def split: if_splits option.splits)
qed

lemma bufio_Write_loop_inv:
  "bufio_Write_loop e path p nn b d = (p', nn', b', d') \<Longrightarrow>
     nn' + length p' = nn + length p
     \<and> file_content d' path @ wbuf b' @ p' = file_content d path @ wbuf b @ p
     \<and> (\<forall>x. x \<noteq> path \<longrightarrow> d' x = d x)
     \<and> (d path \<noteq> None \<longrightarrow> d' path \<noteq> None)
     \<and> (Write_error e = None \<and> werr b = None \<longrightarrow> werr b' = None)"
proof (induction e path p nn b d rule: bufio_Write_loop.induct)
  case (1 e path p nn b d)
  show ?case
  proof (cases "length p > Available b \<and> werr b = None")
    case False
    with "1.prems" show ?thesis by (simp add: bufio_Write_loop.simps)
  next
    case go: True
    show ?thesis
    proof (cases "wbuf b = []")
      case True
      obtain n er d1 where fw: "file_Write e path p d = (n, er, d1)"
        by (cases "file_Write e path p d") auto
      note c = file_Write_content [OF fw]
      have rec: "bufio_Write_loop e path (drop n p) (nn + n) (b\<lparr>werr := er\<rparr>) d1 = (p', nn', b', d')"
        using "1.prems" go True fw by (simp add: bufio_Write_loop.simps [of e path p])
      have ih: "nn' + length p' = nn + n + length (drop n p)
         \<and> file_content d' path @ wbuf b' @ p' = file_content d1 path @ wbuf (b\<lparr>werr := er\<rparr>) @ drop n p
         \<and> (\<forall>x. x \<noteq> path \<longrightarrow> d' x = d1 x)
         \<and> (d1 path \<noteq> None \<longrightarrow> d' path \<noteq> None)
         \<and> (Write_error e = None \<and> werr (b\<lparr>werr := er\<rparr>) = None \<longrightarrow> werr b' = None)"
        using "1.IH"(1) [OF go True refl refl] rec fw by simp
      show ?thesis using ih c True by auto
    next
      case False
      let ?n = "min (Available b) (length p)"
      let ?b1 = "b\<lparr>wbuf := wbuf b @ take ?n p\<rparr>"
      obtain b2 d1 where fl: "bufio_Flush e path ?b1 d = (b2, d1)"
        by (cases "bufio_Flush e path ?b1 d") auto
      note c = bufio_Flush_content [OF fl]
      have rec: "bufio_Write_loop e path (drop ?n p) (nn + ?n) b2 d1 = (p', nn', b', d')"
        using "1.prems" go False fl by (simp add: bufio_Write_loop.simps [of e path p] Let_def)
      have ih: "nn' + length p' = nn + ?n + length (drop ?n p)
         \<and> file_content d' path @ wbuf b' @ p' = file_content d1 path @ wbuf b2 @ drop ?n p
         \<and> (\<forall>x. x \<noteq> path \<longrightarrow> d' x = d1 x)
         \<and> (d1 path \<noteq> None \<longrightarrow> d' path \<noteq> None)
         \<and> (Write_error e = None \<and> werr b2 = None \<longrightarrow> werr b' = None)"
        using "1.IH"(2) [OF go False refl refl] rec fl by simp
      have "file_content d1 path @ wbuf b2 @ drop ?n p = file_content d path @ wbuf b @ p"
        using c(1) by (metis append.assoc append_take_drop_id bufio_Writer.simps(1) bufio_Writer.surjective bufio_Writer.update_convs(1))
      then show ?thesis using ih c by auto
    qed
  qed
qed


lemma bufio_Write_length:
  assumes "bufio_Write e path p b d = (n, er, b', d')"
  shows "n \<le> length p" and "er = None \<longrightarrow> n = length p" and "er = werr b'"
proof -
  obtain p1 nn b1 d1 where l: "bufio_Write_loop e path p 0 b d = (p1, nn, b1, d1)"
    by (cases "bufio_Write_loop e path p 0 b d") auto
  from bufio_Write_loop_inv [OF l] have "nn + length p1 = length p" by simp
  with assms l show "n \<le> length p" and "er = None \<longrightarrow> n = length p" and "er = werr b'"
    by (auto simp: bufio_Write_def split: if_splits)
qed

lemma bufio_Write_accepted:
  assumes "bufio_Write e path p b d = (n, None, b', d')"
  shows "n = length p" and "werr b' = None"
    and "file_content d' path @ wbuf b' = file_content d path @ wbuf b @ p"
    and "\<forall>x. x \<noteq> path \<longrightarrow> d' x = d x"
    and "d path \<noteq> None \<longrightarrow> d' path \<noteq> None"
proof -
  obtain p1 nn b1 d1 where l: "bufio_Write_loop e path p 0 b d = (p1, nn, b1, d1)"
    by (cases "bufio_Write_loop e path p 0 b d") auto
  note inv = bufio_Write_loop_inv [OF l]
  from assms l have r: "werr b1 = None" "n = nn + length p1" "b' = b1\<lparr>wbuf := wbuf b1 @ p1\<rparr>" "d' = d1"
    by (auto simp: bufio_Write_def split: if_splits)
  show "n = length p" using inv r by simp
  show "werr b' = None" using r by simp
  show "file_content d' path @ wbuf b' = file_content d path @ wbuf b @ p" using inv r by simp
  show "\<forall>x. x \<noteq> path \<longrightarrow> d' x = d x" using inv r by simp
  show "d path \<noteq> None \<longrightarrow> d' path \<noteq> None" using inv r by simp
qed

lemma bufio_Write_no_fault:
  assumes "Write_error e = None" and "werr b = None"
  shows "\<exists>b' d'. bufio_Write e path p b d = (length p, None, b', d')"
proof -
  obtain p1 nn b1 d1 where l: "bufio_Write_loop e path p 0 b d = (p1, nn, b1, d1)"
    by (cases "bufio_Write_loop e path p 0 b d") auto
  from bufio_Write_loop_inv [OF l] assms have "werr b1 = None" "nn + length p1 = length p" by simp_all
  with l show ?thesis by (simp add: bufio_Write_def)
qed

section \<open>The rotating sink\<close>

lemma create_ok:
  "Create_error e = None \<Longrightarrow>
   create e sb w = (None, w\<lparr>disk := (disk w)(logPath w \<mapsto> []),
                              file' := Some (sb\<lparr>nbytes := 0, Writer := NewWriterSize\<rparr>)\<rparr>)"
  by (simp add: create_def os_Create_def)

lemma create_result:
  assumes "create e sb w = (None, w')"
  shows "w' = w\<lparr>disk := (disk w)(logPath w \<mapsto> []),
               file' := Some (sb\<lparr>nbytes := 0, Writer := NewWriterSize\<rparr>)\<rparr>"
  using assms by (auto simp: create_def os_Create_def split: option.splits)

lemma create_fails:
  "create e sb w = (Some x, w') \<Longrightarrow> w' = w"
  by (auto simp: create_def os_Create_def split: option.splits)

lemma sink_content_created:
  "sink_content (w\<lparr>disk := (disk w)(logPath w \<mapsto> []),
                   file' := Some (sb\<lparr>nbytes := 0, Writer := NewWriterSize\<rparr>)\<rparr>) = []"
  by (simp add: sink_content_def file_content_def NewWriterSize_def)

lemma syncBuffer_Flush_props:
  assumes "file' w = Some sb"
  shows "sink_content (syncBuffer_Flush e sb w) = sink_content w"
    and "logPath (syncBuffer_Flush e sb w) = logPath w"
    and "logLevel (syncBuffer_Flush e sb w) = logLevel w"
    and "fileMaxSize (syncBuffer_Flush e sb w) = fileMaxSize w"
    and "pool (syncBuffer_Flush e sb w) = pool w"
    and "stderr (syncBuffer_Flush e sb w) = stderr w"
    and "\<exists>b. file' (syncBuffer_Flush e sb w) = Some (sb\<lparr>Writer := b\<rparr>)
           \<and> (werr b = None \<longrightarrow> wbuf b = [])
           \<and> (Write_error e = None \<and> werr (Writer sb) = None \<longrightarrow> werr b = None)"
    and "\<forall>x. x \<noteq> logPath w \<longrightarrow> disk (syncBuffer_Flush e sb w) x = disk w x"
    and "disk w (logPath w) \<noteq> None \<longrightarrow> disk (syncBuffer_Flush e sb w) (logPath w) \<noteq> None"
proof -
  obtain b d where f: "bufio_Flush e (logPath w) (Writer sb) (disk w) = (b, d)"
    by (cases "bufio_Flush e (logPath w) (Writer sb) (disk w)") auto
  note c = bufio_Flush_content [OF f]
  have r: "syncBuffer_Flush e sb w = w\<lparr>disk := d, file' := Some (sb\<lparr>Writer := b\<rparr>)\<rparr>"
    by (simp add: syncBuffer_Flush_def f)
  show "sink_content (syncBuffer_Flush e sb w) = sink_content w"
    using c(1) assms by (simp add: r sink_content_def)
  show "logPath (syncBuffer_Flush e sb w) = logPath w" by (simp add: r)
  show "logLevel (syncBuffer_Flush e sb w) = logLevel w" by (simp add: r)
  show "fileMaxSize (syncBuffer_Flush e sb w) = fileMaxSize w" by (simp add: r)
  show "pool (syncBuffer_Flush e sb w) = pool w" by (simp add: r)
  show "stderr (syncBuffer_Flush e sb w) = stderr w" by (simp add: r)
  show "\<exists>b. file' (syncBuffer_Flush e sb w) = Some (sb\<lparr>Writer := b\<rparr>)
           \<and> (werr b = None \<longrightarrow> wbuf b = [])
           \<and> (Write_error e = None \<and> werr (Writer sb) = None \<longrightarrow> werr b = None)"
    using c by (auto simp: r)
  show "\<forall>x. x \<noteq> logPath w \<longrightarrow> disk (syncBuffer_Flush e sb w) x = disk w x"
    using c by (simp add: r)
  show "disk w (logPath w) \<noteq> None \<longrightarrow> disk (syncBuffer_Flush e sb w) (logPath w) \<noteq> None"
    using c by (simp add: r)
qed

lemma fmt_d_nonneg: "0 \<le> k \<Longrightarrow> fmt_d k = decimal (nat k)"
  by (simp add: fmt_d_def)

lemma rotateFile_alt:
  "rotateFile e now sb w =
     (let w1 = syncBuffer_Flush e sb w;
          filePath = logPath w1 @ ''.'' @ fmt_d (Year now) @ fmt_d (Month now) @ fmt_d (Day now)
                       @ ''.'' @ fmt_d (Hour now) @ fmt_d (Minute now) @ fmt_d (Day now)
      in case os_Rename e (logPath w1) filePath (disk w1) of
           (Some x, d) \<Rightarrow> (Some x, w1\<lparr>disk := d\<rparr>)
         | (None, d) \<Rightarrow>
             (case file' w1 of
                None \<Rightarrow> (Some [], w1\<lparr>disk := d\<rparr>)
              | Some sb1 \<Rightarrow> create e sb1 (w1\<lparr>disk := d\<rparr>)))"
  by (simp add: rotateFile_def syncBuffer_Flush_def Let_def split: prod.splits option.splits)

lemma rotateFile_Returned:
  assumes "file' w = Some sb" and "rotateFile e now sb w = (None, w')"
  shows "\<exists>b. file' w' = Some (sb\<lparr>Writer := b, nbytes := 0, Writer := NewWriterSize\<rparr>)"
    and "sink_content w' = []"
    and "logPath w' = logPath w" and "logLevel w' = logLevel w" and "fileMaxSize w' = fileMaxSize w"
    and "pool w' = pool w" and "stderr w' = stderr w"
    and "disk w' (logPath w) = Some []"
proof -
  let ?w1 = "syncBuffer_Flush e sb w"
  note f = syncBuffer_Flush_props [OF assms(1), of e]
  from f(7) obtain b where b: "file' ?w1 = Some (sb\<lparr>Writer := b\<rparr>)" by blast
  let ?name = "logPath ?w1 @ ''.'' @ fmt_d (Year now) @ fmt_d (Month now) @ fmt_d (Day now)
                       @ ''.'' @ fmt_d (Hour now) @ fmt_d (Minute now) @ fmt_d (Day now)"
  obtain er d where rn: "os_Rename e (logPath ?w1) ?name (disk ?w1) = (er, d)"
    by (cases "os_Rename e (logPath ?w1) ?name (disk ?w1)") auto
  from assms(2) rn b have er: "er = None" and cr: "create e (sb\<lparr>Writer := b\<rparr>) (?w1\<lparr>disk := d\<rparr>) = (None, w')"
    by (auto simp: rotateFile_alt Let_def split: option.splits)
  note w' = create_result [OF cr]
  show "\<exists>b. file' w' = Some (sb\<lparr>Writer := b, nbytes := 0, Writer := NewWriterSize\<rparr>)"
    by (subst w') auto
  show "sink_content w' = []"
    by (subst w') (simp add: sink_content_def file_content_def NewWriterSize_def)
  show "logPath w' = logPath w" by (subst w') (simp add: f)
  show "logLevel w' = logLevel w" by (subst w') (simp add: f)
  show "fileMaxSize w' = fileMaxSize w" by (subst w') (simp add: f)
  show "pool w' = pool w" by (subst w') (simp add: f)
  show "stderr w' = stderr w" by (subst w') (simp add: f)
  show "disk w' (logPath w) = Some []" by (subst w') (simp add: f)
qed

lemma rotateFile_no_fault:
  assumes sb: "file' w = Some sb" and nf: "no_faults e"
    and ok: "werr (Writer sb) = None" "disk w (logPath w) \<noteq> None"
    and t: "0 \<le> Year now" "valid_Time now"
  shows "\<exists>w'. rotateFile e now sb w = (None, w')
           \<and> disk w' (rotated_name (logPath w) now) = Some (sink_content w)
           \<and> disk w' (logPath w) = Some []
           \<and> (\<forall>x. x \<noteq> logPath w \<and> x \<noteq> rotated_name (logPath w) now \<longrightarrow> disk w' x = disk w x)"
proof -
  let ?w1 = "syncBuffer_Flush e sb w"
  note f = syncBuffer_Flush_props [OF sb, of e]
  from f(7) nf ok obtain b where b: "file' ?w1 = Some (sb\<lparr>Writer := b\<rparr>)" "wbuf b = []" "werr b = None"
    by (auto simp: no_faults_def)
  from f(9) ok obtain c where c: "disk ?w1 (logPath w) = Some c" by auto
  have "sink_content ?w1 = c" using b c by (simp add: sink_content_def file_content_def f)
  then have cw: "c = sink_content w" using f(1) by simp
  let ?name = "logPath ?w1 @ ''.'' @ fmt_d (Year now) @ fmt_d (Month now) @ fmt_d (Day now)
                       @ ''.'' @ fmt_d (Hour now) @ fmt_d (Minute now) @ fmt_d (Day now)"
  have name: "?name = rotated_name (logPath w) now"
    using t by (simp add: rotated_name_def fmt_d_nonneg valid_Time_def f)
  have ne: "rotated_name (logPath w) now \<noteq> logPath w" by (simp add: rotated_name_def)
  have rn: "os_Rename e (logPath ?w1) ?name (disk ?w1)
      = (None, ((disk ?w1)(logPath w := None))(rotated_name (logPath w) now \<mapsto> c))"
    using nf c unfolding name by (simp add: os_Rename_def no_faults_def f)
  let ?d = "((disk ?w1)(logPath w := None))(rotated_name (logPath w) now \<mapsto> c)"
  let ?w' = "?w1\<lparr>disk := ?d(logPath w \<mapsto> []),
               file' := Some (sb\<lparr>Writer := b, nbytes := 0, Writer := NewWriterSize\<rparr>)\<rparr>"
  have cr: "create e (sb\<lparr>Writer := b\<rparr>) (?w1\<lparr>disk := ?d\<rparr>) = (None, ?w')"
    using nf by (simp add: create_ok no_faults_def f)
  have run: "rotateFile e now sb w = (None, ?w')"
    unfolding rotateFile_alt Let_def rn using b cr by simp
  have "disk ?w' (rotated_name (logPath w) now) = Some (sink_content w)" using ne cw by simp
  moreover have "disk ?w' (logPath w) = Some []" by simp
  moreover have "\<forall>x. x \<noteq> logPath w \<and> x \<noteq> rotated_name (logPath w) now \<longrightarrow> disk ?w' x = disk w x"
    using f(8) by simp
  ultimately show ?thesis using run by blast
qed

lemma syncBuffer_Write_unfold:
  assumes "file' w = Some sb"
    and "(if fileMaxSize w \<le> nbytes sb + of_nat (length p)
          then rotateFile e (time_Now e) sb w else (None, w)) = (None, w1)"
    and "file' w1 = Some sb1"
    and "bufio_Write e (logPath w1) p (Writer sb1) (disk w1) = (n, er, b, d)"
  shows "syncBuffer_Write e p w =
     (case er of
        Some x \<Rightarrow> exit e x (w1\<lparr>disk := d, file' := Some (sb1\<lparr>Writer := b, nbytes := nbytes sb1 + of_nat n\<rparr>)\<rparr>)
      | None \<Rightarrow> Returned (n, w1\<lparr>disk := d, file' := Some (sb1\<lparr>Writer := b, nbytes := nbytes sb1 + of_nat n\<rparr>)\<rparr>))"
  using assms by (simp add: syncBuffer_Write_def Let_def)

lemma rotate_step:
  assumes "file' w = Some sb"
  obtains (fail) x w1 where
      "(if fileMaxSize w \<le> nbytes sb + of_nat (length p)
          then rotateFile e (time_Now e) sb w else (None, w)) = (Some x, w1)"
      "fileMaxSize w \<le> nbytes sb + of_nat (length p)"
  | (go) w1 sb1 where
      "(if fileMaxSize w \<le> nbytes sb + of_nat (length p)
          then rotateFile e (time_Now e) sb w else (None, w)) = (None, w1)"
      "file' w1 = Some sb1"
      "nbytes sb1 = (if fileMaxSize w \<le> nbytes sb + of_nat (length p) then 0 else nbytes sb)"
      "sink_content w1 = (if fileMaxSize w \<le> nbytes sb + of_nat (length p) then [] else sink_content w)"
      "logPath w1 = logPath w" "logLevel w1 = logLevel w" "fileMaxSize w1 = fileMaxSize w"
      "pool w1 = pool w" "stderr w1 = stderr w"
      "fileMaxSize w \<le> nbytes sb + of_nat (length p) \<or> w1 = w"
      "fileMaxSize w \<le> nbytes sb + of_nat (length p) \<longrightarrow>
         disk w1 (logPath w) = Some [] \<and> Writer sb1 = NewWriterSize"
proof (cases "fileMaxSize w \<le> nbytes sb + of_nat (length p)")
  case False
  then show ?thesis using assms by (intro go [of w sb]) simp_all
next
  case True
  obtain er w1 where r: "rotateFile e (time_Now e) sb w = (er, w1)"
    by (cases "rotateFile e (time_Now e) sb w") auto
  show ?thesis
  proof (cases er)
    case (Some x)
    then show ?thesis using True r by (intro fail [of x w1]) simp_all
  next
    case None
    note p = rotateFile_Returned [OF assms r [unfolded None]]
    from p(1) obtain b where b: "file' w1 = Some (sb\<lparr>Writer := b, nbytes := 0, Writer := NewWriterSize\<rparr>)"
      by blast
    show ?thesis
      using True r None p b
      by (intro go [of w1 "sb\<lparr>Writer := b, nbytes := 0, Writer := NewWriterSize\<rparr>"]) simp_all
  qed
qed

lemma syncBuffer_Write_Returned:
  assumes sb: "file' w = Some sb" and run: "syncBuffer_Write e p w = Returned (n, w')"
  shows "n = length p \<and>
      (\<exists>sb'. file' w' = Some sb' \<and> werr (Writer sb') = None
           \<and> nbytes sb' = (if fileMaxSize w \<le> nbytes sb + of_nat (length p) then 0 else nbytes sb)
                 + of_nat n) \<and>
      sink_content w' =
        (if fileMaxSize w \<le> nbytes sb + of_nat (length p) then [] else sink_content w) @ p \<and>
      logPath w' = logPath w \<and> logLevel w' = logLevel w \<and> fileMaxSize w' = fileMaxSize w \<and>
      pool w' = pool w \<and> stderr w' = stderr w \<and>
      (\<not> fileMaxSize w \<le> nbytes sb + of_nat (length p)
         \<longrightarrow> (\<forall>x. x \<noteq> logPath w \<longrightarrow> disk w' x = disk w x)) \<and>
      (fileMaxSize w \<le> nbytes sb + of_nat (length p) \<or> disk w (logPath w) \<noteq> None
         \<longrightarrow> disk w' (logPath w) \<noteq> None)"
    (is "_ \<and> (\<exists>sb'. _ \<and> _ \<and> nbytes sb' = (if ?c then _ else _) + _) \<and> _")
proof (rule rotate_step [OF sb, of p e], goal_cases)
    case (1 x w1)
    with sb run show ?thesis
      by (simp add: syncBuffer_Write_def exit_def)
  next
    case (2 w1 sb1)
    note go = this
    obtain m er b d where bw: "bufio_Write e (logPath w1) p (Writer sb1) (disk w1) = (m, er, b, d)"
      by (cases "bufio_Write e (logPath w1) p (Writer sb1) (disk w1)") auto
    note u = syncBuffer_Write_unfold [OF sb go(1) go(2) bw]
    from u run have er: "er = None" by (cases er) (simp_all add: exit_def)
    from u run er have n: "n = m"
      and w': "w' = w1\<lparr>disk := d, file' := Some (sb1\<lparr>Writer := b, nbytes := nbytes sb1 + of_nat m\<rparr>)\<rparr>"
      by simp_all
    note a = bufio_Write_accepted [OF bw [unfolded er]]
    have sc: "sink_content w' = sink_content w1 @ p"
      using a(3) go(2) by (simp add: w' sink_content_def)
    have dk: "\<forall>x. x \<noteq> logPath w \<longrightarrow> disk w' x = disk w1 x"
      using a(4) go(5) by (simp add: w')
    have ex: "disk w1 (logPath w) \<noteq> None \<longrightarrow> disk w' (logPath w) \<noteq> None"
      using a(5) go(5) by (simp add: w')
    show ?thesis
    proof (intro conjI)
      show "n = length p" using a(1) n by simp
      show "\<exists>sb'. file' w' = Some sb' \<and> werr (Writer sb') = None
           \<and> nbytes sb' = (if ?c then 0 else nbytes sb) + of_nat n"
        using a(2) go(3) n by (simp add: w')
      show "sink_content w' = (if ?c then [] else sink_content w) @ p" using sc go(4) by simp
      show "logPath w' = logPath w" using go by (simp add: w')
      show "logLevel w' = logLevel w" using go by (simp add: w')
      show "fileMaxSize w' = fileMaxSize w" using go by (simp add: w')
      show "pool w' = pool w" using go by (simp add: w')
      show "stderr w' = stderr w" using go by (simp add: w')
      show "\<not> ?c \<longrightarrow> (\<forall>x. x \<noteq> logPath w \<longrightarrow> disk w' x = disk w x)" using dk go(10) by auto
      show "?c \<or> disk w (logPath w) \<noteq> None \<longrightarrow> disk w' (logPath w) \<noteq> None"
        using ex go(10) go(11) by auto
    qed
qed

lemma rotateFile_succeeds:
  assumes sb: "file' w = Some sb" and nf: "no_faults e" and ok: "disk w (logPath w) \<noteq> None"
  shows "fst (rotateFile e now sb w) = None"
proof -
  let ?w1 = "syncBuffer_Flush e sb w"
  note f = syncBuffer_Flush_props [OF sb, of e]
  from f(7) obtain b where b: "file' ?w1 = Some (sb\<lparr>Writer := b\<rparr>)" by blast
  from f(9) ok obtain c where c: "disk ?w1 (logPath w) = Some c" by auto
  show ?thesis
    using nf b c by (simp add: rotateFile_alt Let_def os_Rename_def no_faults_def f create_ok)
qed

lemma syncBuffer_Write_no_fault:
  assumes sb: "file' w = Some sb" and nf: "no_faults e"
    and ok: "werr (Writer sb) = None" "disk w (logPath w) \<noteq> None"
  shows "\<exists>w'. syncBuffer_Write e p w = Returned (length p, w')"
proof (rule rotate_step [OF sb, of p e], goal_cases)
  case (1 x w1)
  with rotateFile_succeeds [OF sb nf ok(2), of "time_Now e"] show ?case by simp
next
  case (2 w1 sb1)
  note go = this
  have "werr (Writer sb1) = None"
    using go(10) go(11) go(2) sb ok by (auto simp: NewWriterSize_def)
  moreover have "Write_error e = None" using nf by (simp add: no_faults_def)
  ultimately obtain b d where bw: "bufio_Write e (logPath w1) p (Writer sb1) (disk w1) = (length p, None, b, d)"
    using bufio_Write_no_fault by blast
  show ?case using syncBuffer_Write_unfold [OF sb go(1) go(2) bw] by simp
qed

lemma exit_is_Exit: "\<exists>w'. exit e x w = Exit 2 w'"
  by (simp add: exit_def)

lemma syncBuffer_Write_outcome:
  assumes sb: "file' w = Some sb"
  shows "(\<exists>n w'. syncBuffer_Write e p w = Returned (n, w')) \<or> (\<exists>w'. syncBuffer_Write e p w = Exit 2 w')"
proof (rule rotate_step [OF sb, of p e], goal_cases)
  case (1 x w1)
  then show ?case using sb by (simp add: syncBuffer_Write_def exit_def)
next
  case (2 w1 sb1)
  note go = this
  obtain m er b d where bw: "bufio_Write e (logPath w1) p (Writer sb1) (disk w1) = (m, er, b, d)"
    by (cases "bufio_Write e (logPath w1) p (Writer sb1) (disk w1)") auto
  show ?case
    using syncBuffer_Write_unfold [OF sb go(1) go(2) bw] by (cases er) (simp_all add: exit_def)
qed

section \<open>Rotation\<close>

lemma example_rotated_name: "rotated_name ''app.log'' example_clock = ''app.log.202437.897''"
  by (simp add: rotated_name_def example_clock_def decimal.simps digit_char_def)

text \<open>
  C8. A rotation at time \<open>t\<close> renames the file at the log path to the path, a dot, the
  year, month and day of \<open>t\<close>, a dot, then the hour, the minute and the day again, each
  in minimal-width decimal without padding; the renamed file holds all the sink had
  accepted and the log path holds a new empty file. At 2024-03-07 08:09 the file
  \<open>app.log\<close> becomes \<open>app.log.202437.897\<close>.
\<close>

theorem rotateFile_name:
  "(file' w = Some sb \<and> no_faults e \<and> werr (Writer sb) = None \<and> disk w (logPath w) \<noteq> None
      \<and> 0 \<le> Year t \<and> valid_Time t
    \<longrightarrow> (\<exists>w'. rotateFile e t sb w = (None, w')
          \<and> disk w' (logPath w @ ''.'' @ decimal (nat (Year t)) @ decimal (nat (Month t))
                        @ decimal (nat (Day t)) @ ''.'' @ decimal (nat (Hour t))
                        @ decimal (nat (Minute t)) @ decimal (nat (Day t)))
              = Some (sink_content w)
          \<and> disk w' (logPath w) = Some []))
   \<and> numeral_value (decimal n) = n \<and> list_all is_digit (decimal n)
   \<and> (0 < n \<longrightarrow> hd (decimal n) \<noteq> CHR ''0'')
   \<and> rotated_name ''app.log'' example_clock = ''app.log.202437.897''"
proof (intro conjI impI)
  assume a: "file' w = Some sb \<and> no_faults e \<and> werr (Writer sb) = None \<and> disk w (logPath w) \<noteq> None
      \<and> 0 \<le> Year t \<and> valid_Time t"
  then obtain w' where "rotateFile e t sb w = (None, w')"
      "disk w' (rotated_name (logPath w) t) = Some (sink_content w)" "disk w' (logPath w) = Some []"
    using rotateFile_no_fault [of w sb e t] by blast
  then show "\<exists>w'. rotateFile e t sb w = (None, w')
          \<and> disk w' (logPath w @ ''.'' @ decimal (nat (Year t)) @ decimal (nat (Month t))
                        @ decimal (nat (Day t)) @ ''.'' @ decimal (nat (Hour t))
                        @ decimal (nat (Minute t)) @ decimal (nat (Day t)))
              = Some (sink_content w)
          \<and> disk w' (logPath w) = Some []"
    by (auto simp: rotated_name_def)
qed (simp_all add: numeral_value_decimal decimal_digits decimal_no_leading_zero example_rotated_name)

theorem rotateFile_name_witness:
  "file' example_open = Some \<lparr>Writer = \<lparr>wbuf = ''new'', werr = None\<rparr>, nbytes = 6\<rparr>
   \<and> no_faults example_env \<and> disk example_open (logPath example_open) \<noteq> None
   \<and> 0 \<le> Year example_clock \<and> valid_Time example_clock
   \<and> (\<exists>w'. rotateFile example_env example_clock \<lparr>Writer = \<lparr>wbuf = ''new'', werr = None\<rparr>, nbytes = 6\<rparr>
               example_open = (None, w')
          \<and> disk w' ''app.log.202437.897'' = Some ''oldnew''
          \<and> disk w' ''app.log'' = Some [])"
proof -
  let ?sb = "\<lparr>Writer = \<lparr>wbuf = ''new'', werr = None\<rparr>, nbytes = 6\<rparr>"
  have h: "file' example_open = Some ?sb" "no_faults example_env" "werr (Writer ?sb) = None"
      "disk example_open (logPath example_open) \<noteq> None" "0 \<le> Year example_clock"
      "valid_Time example_clock"
    by (simp_all add: example_open_def example_world_def example_env_def no_faults_def
        example_clock_def valid_Time_def)
  have n: "''app.log'' @ ''.'' @ decimal (nat (Year example_clock))
        @ decimal (nat (Month example_clock)) @ decimal (nat (Day example_clock)) @ ''.''
        @ decimal (nat (Hour example_clock)) @ decimal (nat (Minute example_clock))
        @ decimal (nat (Day example_clock)) = ''app.log.202437.897''"
    using example_rotated_name by (simp add: rotated_name_def)
  have c: "sink_content example_open = ''oldnew''" "logPath example_open = ''app.log''"
    by (simp_all add: sink_content_def example_open_def example_world_def file_content_def)
  have hyps: "file' example_open = Some ?sb \<and> no_faults example_env \<and> werr (Writer ?sb) = None
      \<and> disk example_open (logPath example_open) \<noteq> None \<and> 0 \<le> Year example_clock
      \<and> valid_Time example_clock"
    using h by (intro conjI)
  note ex = mp [OF conjunct1 [OF rotateFile_name [of example_open ?sb example_env example_clock]] hyps]
  from ex obtain w' where w': "rotateFile example_env example_clock ?sb example_open = (None, w')"
      "disk w' ''app.log.202437.897'' = Some ''oldnew''" "disk w' ''app.log'' = Some []"
    unfolding c n by (elim exE conjE)
  have "\<exists>w'. rotateFile example_env example_clock ?sb example_open = (None, w')
          \<and> disk w' ''app.log.202437.897'' = Some ''oldnew''
          \<and> disk w' ''app.log'' = Some []"
    using w' by (intro exI conjI)
  with h(1,2,4,5,6) show ?thesis by (intro conjI)
qed

lemma Write_rotates_general:
  assumes sb: "file' w = Some sb" and nf: "no_faults e"
    and ok: "werr (Writer sb) = None" "disk w (logPath w) \<noteq> None"
    and t: "0 \<le> Year (time_Now e)" "valid_Time (time_Now e)"
  shows "\<exists>w' sb'. syncBuffer_Write e p w = Returned (length p, w')
          \<and> file' w' = Some sb' \<and> werr (Writer sb') = None \<and> disk w' (logPath w') \<noteq> None
          \<and> logPath w' = logPath w \<and> fileMaxSize w' = fileMaxSize w
          \<and> (fileMaxSize w \<le> nbytes sb + of_nat (length p)
               \<longrightarrow> disk w' (rotated_name (logPath w) (time_Now e)) = Some (sink_content w)
                 \<and> sink_content w' = p \<and> nbytes sb' = of_nat (length p))
          \<and> (\<not> fileMaxSize w \<le> nbytes sb + of_nat (length p)
               \<longrightarrow> (\<forall>x. x \<noteq> logPath w \<longrightarrow> disk w' x = disk w x)
                 \<and> sink_content w' = sink_content w @ p \<and> nbytes sb' = nbytes sb + of_nat (length p))"
proof -
  let ?c = "fileMaxSize w \<le> nbytes sb + of_nat (length p)"
  let ?rot = "rotated_name (logPath w) (time_Now e)"
  obtain w' where run: "syncBuffer_Write e p w = Returned (length p, w')"
    using syncBuffer_Write_no_fault [OF sb nf ok] by blast
  note r = syncBuffer_Write_Returned [OF sb run]
  from r obtain sb' where sb': "file' w' = Some sb'" "werr (Writer sb') = None"
      "nbytes sb' = (if ?c then 0 else nbytes sb) + of_nat (length p)"
    by blast
  have rot: "disk w' ?rot = Some (sink_content w)" if c: ?c
  proof -
    obtain w1 where w1: "rotateFile e (time_Now e) sb w = (None, w1)"
        "disk w1 ?rot = Some (sink_content w)" "disk w1 (logPath w) = Some []"
      using rotateFile_no_fault [OF sb nf ok t] by blast
    note p1 = rotateFile_Returned [OF sb w1(1)]
    from p1(1) obtain sb1 where sb1: "file' w1 = Some sb1" by blast
    obtain m er b d where bw: "bufio_Write e (logPath w1) p (Writer sb1) (disk w1) = (m, er, b, d)"
      by (cases "bufio_Write e (logPath w1) p (Writer sb1) (disk w1)") auto
    have g: "(if ?c then rotateFile e (time_Now e) sb w else (None, w)) = (None, w1)"
      using c w1(1) by simp
    note u = syncBuffer_Write_unfold [OF sb g sb1 bw]
    from u run have er: "er = None" by (cases er) (simp_all add: exit_def)
    from u run er have w': "w' = w1\<lparr>disk := d, file' := Some (sb1\<lparr>Writer := b, nbytes := nbytes sb1 + of_nat m\<rparr>)\<rparr>"
      by simp
    note a = bufio_Write_accepted [OF bw [unfolded er]]
    have "?rot \<noteq> logPath w" by (simp add: rotated_name_def)
    then have "d ?rot = disk w1 ?rot" using a(4) p1(3) by simp
    then show ?thesis using w1(2) by (simp add: w')
  qed
  have ex: "disk w' (logPath w') \<noteq> None" using r ok(2) by auto
  show ?thesis
    using run sb' r rot ex by (intro exI [of _ w'] exI [of _ sb']) simp
qed


lemma rotation_test_nat:
  fixes n m :: uint64
  assumes "unat n + k < 2 ^ 64"
  shows "(m \<le> n + of_nat k) = (unat m \<le> unat n + k)"
proof -
  have "k < 2 ^ 64" using assms by simp
  then have "unat (of_nat k :: uint64) = k" by (simp add: unat_of_nat)
  then have "unat (n + of_nat k) = unat n + k"
    using assms by (simp add: unat_word_ariths)
  then show ?thesis by (simp add: word_le_nat_alt)
qed

lemma example_two_writes:
  "\<exists>w0 w1 w2.
      create example_env fresh_syncBuffer example_world = (None, w0)
    \<and> syncBuffer_Write example_env (replicate 60 CHR ''a'') w0 = Returned (60, w1)
    \<and> sink_content w1 = replicate 60 CHR ''a''
    \<and> disk w1 ''app.log.202437.897'' = None
    \<and> syncBuffer_Write example_env (replicate 60 CHR ''b'') w1 = Returned (60, w2)
    \<and> disk w2 ''app.log.202437.897'' = Some (replicate 60 CHR ''a'')
    \<and> sink_content w2 = replicate 60 CHR ''b''"
proof -
  let ?e = example_env
  let ?a = "replicate 60 CHR ''a''" and ?b = "replicate 60 CHR ''b''"
  let ?sb0 = "fresh_syncBuffer\<lparr>nbytes := 0, Writer := NewWriterSize\<rparr>"
  let ?w0 = "example_world\<lparr>disk := (disk example_world)(logPath example_world \<mapsto> []),
                           file' := Some ?sb0\<rparr>"
  have nf: "no_faults ?e" by (simp add: example_env_def no_faults_def)
  have t: "0 \<le> Year (time_Now ?e)" "valid_Time (time_Now ?e)"
    by (simp_all add: example_env_def example_clock_def valid_Time_def)
  have rn: "rotated_name ''app.log'' (time_Now ?e) = ''app.log.202437.897''"
    using example_rotated_name by (simp add: example_env_def)
  have c0: "create ?e fresh_syncBuffer example_world = (None, ?w0)"
    using nf by (simp add: create_ok no_faults_def)
  have w0: "file' ?w0 = Some ?sb0" "werr (Writer ?sb0) = None" "disk ?w0 (logPath ?w0) \<noteq> None"
      "logPath ?w0 = ''app.log''" "fileMaxSize ?w0 = 100" "nbytes ?sb0 = 0" "sink_content ?w0 = []"
      "disk ?w0 ''app.log.202437.897'' = None"
    by (simp_all add: example_world_def NewWriterSize_def sink_content_def file_content_def)
  have n1: "\<not> fileMaxSize ?w0 \<le> nbytes ?sb0 + of_nat (length ?a)"
    unfolding w0(5) w0(6) by simp
  obtain w1 sb1 where w1: "syncBuffer_Write ?e ?a ?w0 = Returned (length ?a, w1)"
      "file' w1 = Some sb1" "werr (Writer sb1) = None" "disk w1 (logPath w1) \<noteq> None"
      "logPath w1 = logPath ?w0" "fileMaxSize w1 = fileMaxSize ?w0"
      "\<forall>x. x \<noteq> logPath ?w0 \<longrightarrow> disk w1 x = disk ?w0 x"
      "sink_content w1 = sink_content ?w0 @ ?a" "nbytes sb1 = nbytes ?sb0 + of_nat (length ?a)"
    using Write_rotates_general [OF w0(1) nf w0(2) w0(3) t, of ?a] n1 by blast
  have s1: "sink_content w1 = ?a" using w1(8) w0(7) by simp
  have d1: "disk w1 ''app.log.202437.897'' = None"
    using w1(7) w0(4) w0(8) by simp
  have y2: "fileMaxSize w1 \<le> nbytes sb1 + of_nat (length ?b)"
    unfolding w1(6) w1(9) w0(5) w0(6) by simp
  obtain w2 where w2: "syncBuffer_Write ?e ?b w1 = Returned (length ?b, w2)"
      "disk w2 (rotated_name (logPath w1) (time_Now ?e)) = Some (sink_content w1)"
      "sink_content w2 = ?b"
    using Write_rotates_general [OF w1(2) nf w1(3) w1(4) t, of ?b] y2 by blast
  have d2: "disk w2 ''app.log.202437.897'' = Some ?a"
    using w2(2) unfolding w1(5) w0(4) rn s1 .
  have l: "length ?a = 60" "length ?b = 60" by simp_all
  show ?thesis
    using c0 w1(1) s1 d1 w2(1) d2 w2(3) unfolding l
    by (intro exI [of _ ?w0] exI [of _ w1] exI [of _ w2] conjI)
qed

text \<open>
  C2. A write to an open, healthy sink rotates first exactly when
  \<open>bytesWritten + len(p) \<ge> maxSize\<close>, the sum and the comparison being those of the
  64-bit counter (the plain sum while it stays below \<open>2 ^ 64\<close>): then the old file, with
  all the sink had accepted, stands under the rotated name and the new file holds
  exactly \<open>p\<close>; otherwise no other file changes and \<open>p\<close> is appended. With a maximum of
  100 bytes, the first 60-byte write after creation does not rotate and the second does.
\<close>

theorem syncBuffer_Write_rotation:
  "(file' w = Some sb \<and> no_faults e \<and> werr (Writer sb) = None \<and> disk w (logPath w) \<noteq> None
      \<and> 0 \<le> Year (time_Now e) \<and> valid_Time (time_Now e)
    \<longrightarrow> (\<exists>w'. syncBuffer_Write e p w = Returned (length p, w')
          \<and> (fileMaxSize w \<le> nbytes sb + of_nat (length p)
               \<longrightarrow> disk w' (rotated_name (logPath w) (time_Now e)) = Some (sink_content w)
                 \<and> sink_content w' = p)
          \<and> (\<not> fileMaxSize w \<le> nbytes sb + of_nat (length p)
               \<longrightarrow> (\<forall>x. x \<noteq> logPath w \<longrightarrow> disk w' x = disk w x)
                 \<and> sink_content w' = sink_content w @ p)))
   \<and> (unat (nbytes sb) + length p < 2 ^ 64
    \<longrightarrow> (fileMaxSize w \<le> nbytes sb + of_nat (length p))
          = (unat (fileMaxSize w) \<le> unat (nbytes sb) + length p))
   \<and> (\<exists>w0 w1 w2.
        create example_env fresh_syncBuffer example_world = (None, w0)
      \<and> syncBuffer_Write example_env (replicate 60 CHR ''a'') w0 = Returned (60, w1)
      \<and> sink_content w1 = replicate 60 CHR ''a''
      \<and> disk w1 ''app.log.202437.897'' = None
      \<and> syncBuffer_Write example_env (replicate 60 CHR ''b'') w1 = Returned (60, w2)
      \<and> disk w2 ''app.log.202437.897'' = Some (replicate 60 CHR ''a'')
      \<and> sink_content w2 = replicate 60 CHR ''b'')"
proof (intro conjI impI)
  assume a: "file' w = Some sb \<and> no_faults e \<and> werr (Writer sb) = None \<and> disk w (logPath w) \<noteq> None
      \<and> 0 \<le> Year (time_Now e) \<and> valid_Time (time_Now e)"
  then have "\<exists>w' sb'. syncBuffer_Write e p w = Returned (length p, w')
          \<and> file' w' = Some sb' \<and> werr (Writer sb') = None \<and> disk w' (logPath w') \<noteq> None
          \<and> logPath w' = logPath w \<and> fileMaxSize w' = fileMaxSize w
          \<and> (fileMaxSize w \<le> nbytes sb + of_nat (length p)
               \<longrightarrow> disk w' (rotated_name (logPath w) (time_Now e)) = Some (sink_content w)
                 \<and> sink_content w' = p \<and> nbytes sb' = of_nat (length p))
          \<and> (\<not> fileMaxSize w \<le> nbytes sb + of_nat (length p)
               \<longrightarrow> (\<forall>x. x \<noteq> logPath w \<longrightarrow> disk w' x = disk w x)
                 \<and> sink_content w' = sink_content w @ p \<and> nbytes sb' = nbytes sb + of_nat (length p))"
    by (intro Write_rotates_general) simp_all
  then show "\<exists>w'. syncBuffer_Write e p w = Returned (length p, w')
          \<and> (fileMaxSize w \<le> nbytes sb + of_nat (length p)
               \<longrightarrow> disk w' (rotated_name (logPath w) (time_Now e)) = Some (sink_content w)
                 \<and> sink_content w' = p)
          \<and> (\<not> fileMaxSize w \<le> nbytes sb + of_nat (length p)
               \<longrightarrow> (\<forall>x. x \<noteq> logPath w \<longrightarrow> disk w' x = disk w x)
                 \<and> sink_content w' = sink_content w @ p)"
    by blast
next
  assume "unat (nbytes sb) + length p < 2 ^ 64"
  then show "(fileMaxSize w \<le> nbytes sb + of_nat (length p))
          = (unat (fileMaxSize w) \<le> unat (nbytes sb) + length p)"
    by (rule rotation_test_nat)
next
  show "\<exists>w0 w1 w2.
        create example_env fresh_syncBuffer example_world = (None, w0)
      \<and> syncBuffer_Write example_env (replicate 60 CHR ''a'') w0 = Returned (60, w1)
      \<and> sink_content w1 = replicate 60 CHR ''a''
      \<and> disk w1 ''app.log.202437.897'' = None
      \<and> syncBuffer_Write example_env (replicate 60 CHR ''b'') w1 = Returned (60, w2)
      \<and> disk w2 ''app.log.202437.897'' = Some (replicate 60 CHR ''a'')
      \<and> sink_content w2 = replicate 60 CHR ''b''"
    by (rule example_two_writes)
qed

theorem syncBuffer_Write_rotation_witness:
  "file' example_open = Some \<lparr>Writer = \<lparr>wbuf = ''new'', werr = None\<rparr>, nbytes = 6\<rparr>
   \<and> no_faults example_env \<and> disk example_open (logPath example_open) \<noteq> None
   \<and> valid_Time (time_Now example_env)
   \<and> \<not> fileMaxSize example_open \<le> 6 + of_nat (length ''abc'')
   \<and> (\<exists>w'. syncBuffer_Write example_env ''abc'' example_open = Returned (3, w')
          \<and> sink_content w' = ''oldnewabc'')
   \<and> fileMaxSize example_open \<le> 6 + of_nat (length (replicate 94 CHR ''z''))
   \<and> (\<exists>w'. syncBuffer_Write example_env (replicate 94 CHR ''z'') example_open = Returned (94, w')
          \<and> disk w' ''app.log.202437.897'' = Some ''oldnew''
          \<and> sink_content w' = replicate 94 CHR ''z'')"
proof -
  let ?sb = "\<lparr>Writer = \<lparr>wbuf = ''new'', werr = None\<rparr>, nbytes = 6\<rparr>"
  let ?z = "replicate 94 CHR ''z''"
  have h: "file' example_open = Some ?sb" "no_faults example_env" "werr (Writer ?sb) = None"
      "disk example_open (logPath example_open) \<noteq> None" "0 \<le> Year (time_Now example_env)"
      "valid_Time (time_Now example_env)"
    by (simp_all add: example_open_def example_world_def example_env_def no_faults_def
        example_clock_def valid_Time_def)
  have hyps: "file' example_open = Some ?sb \<and> no_faults example_env \<and> werr (Writer ?sb) = None
      \<and> disk example_open (logPath example_open) \<noteq> None \<and> 0 \<le> Year (time_Now example_env)
      \<and> valid_Time (time_Now example_env)"
    using h by (intro conjI)
  have c: "sink_content example_open = ''oldnew''" "logPath example_open = ''app.log''"
      "fileMaxSize example_open = 100" "nbytes ?sb = 6"
    by (simp_all add: sink_content_def example_open_def example_world_def file_content_def)
  have rn: "rotated_name ''app.log'' (time_Now example_env) = ''app.log.202437.897''"
    using example_rotated_name by (simp add: example_env_def)
  have n1: "\<not> fileMaxSize example_open \<le> 6 + of_nat (length ''abc'')"
    unfolding c by simp
  have y2: "fileMaxSize example_open \<le> 6 + of_nat (length ?z)"
    unfolding c by simp
  note ex1 = mp [OF conjunct1 [OF syncBuffer_Write_rotation [of example_open ?sb example_env "''abc''"]] hyps]
  from ex1 n1 obtain w1 where w1: "syncBuffer_Write example_env ''abc'' example_open = Returned (length ''abc'', w1)"
      "sink_content w1 = sink_content example_open @ ''abc''"
    unfolding c(4) by (elim exE conjE) simp
  note ex2 = mp [OF conjunct1 [OF syncBuffer_Write_rotation [of example_open ?sb example_env ?z]] hyps]
  from ex2 y2 obtain w2 where w2: "syncBuffer_Write example_env ?z example_open = Returned (length ?z, w2)"
      "disk w2 (rotated_name (logPath example_open) (time_Now example_env)) = Some (sink_content example_open)"
      "sink_content w2 = ?z"
    unfolding c(4) by (elim exE conjE) simp
  have e1: "\<exists>w'. syncBuffer_Write example_env ''abc'' example_open = Returned (3, w')
          \<and> sink_content w' = ''oldnewabc''"
    using w1 unfolding c(1) by (intro exI [of _ w1]) simp
  have e2: "\<exists>w'. syncBuffer_Write example_env ?z example_open = Returned (94, w')
          \<and> disk w' ''app.log.202437.897'' = Some ''oldnew''
          \<and> sink_content w' = ?z"
    using w2 unfolding c(1) c(2) rn by (intro exI [of _ w2]) simp
  show ?thesis
    using h(1,2,4,6) n1 e1 y2 e2 by (intro conjI)
qed

section \<open>The byte counter\<close>

lemma counter_ok_created:
  assumes "create e sb w = (None, w')"
  shows "\<exists>sb'. file' w' = Some sb' \<and> nbytes sb' = 0" and "sink_content w' = []" and "counter_ok w'"
proof -
  note r = create_result [OF assms]
  show "\<exists>sb'. file' w' = Some sb' \<and> nbytes sb' = 0" by (subst r) simp
  show s: "sink_content w' = []" by (subst r) (rule sink_content_created)
  show "counter_ok w'" unfolding counter_ok_def s by (subst r) simp
qed

lemma counter_ok_rotated:
  assumes "file' w = Some sb" and "rotateFile e now sb w = (None, w')"
  shows "\<exists>sb'. file' w' = Some sb' \<and> nbytes sb' = 0" and "counter_ok w'"
proof -
  note r = rotateFile_Returned [OF assms]
  from r(1) obtain b where b: "file' w' = Some (sb\<lparr>Writer := b, nbytes := 0, Writer := NewWriterSize\<rparr>)"
    by blast
  show "\<exists>sb'. file' w' = Some sb' \<and> nbytes sb' = 0" using b by simp
  show "counter_ok w'" using b r(2) by (simp add: counter_ok_def)
qed

lemma counter_ok_Write:
  assumes sb: "file' w = Some sb" and run: "syncBuffer_Write e p w = Returned (n, w')"
    and inv: "counter_ok w"
  shows "counter_ok w'"
proof -
  let ?c = "fileMaxSize w \<le> nbytes sb + of_nat (length p)"
  note r = syncBuffer_Write_Returned [OF sb run]
  from r obtain sb' where sb': "file' w' = Some sb'"
      "nbytes sb' = (if ?c then 0 else nbytes sb) + of_nat n" by blast
  from r have n: "n = length p" and sc: "sink_content w' = (if ?c then [] else sink_content w) @ p"
    by simp_all
  from inv sb have i: "unat (nbytes sb) = length (sink_content w) mod 2 ^ 64"
    by (simp add: counter_ok_def)
  have "unat (nbytes sb') = length (sink_content w') mod 2 ^ 64"
  proof (cases ?c)
    case True
    then show ?thesis using sb' sc n by (simp add: unat_of_nat)
  next
    case False
    have "unat (nbytes sb + of_nat (length p)) = (unat (nbytes sb) + length p mod 2 ^ 64) mod 2 ^ 64"
      by (simp add: unat_word_ariths unat_of_nat)
    also have "\<dots> = (length (sink_content w) + length p) mod 2 ^ 64"
      unfolding i by (simp add: mod_add_eq)
    finally show ?thesis using False sb' sc n by simp
  qed
  then show ?thesis using sb' by (simp add: counter_ok_def)
qed

lemma counter_ok_Writes:
  "counter_ok w \<Longrightarrow> Writes ps w = Returned w' \<Longrightarrow> counter_ok w'"
proof (induction ps arbitrary: w)
  case Nil
  then show ?case by simp
next
  case (Cons a ps)
  obtain e p where a: "a = (e, p)" by (cases a)
  show ?case
  proof (cases "file' w")
    case None
    with Cons.prems a show ?thesis by (simp add: syncBuffer_Write_def)
  next
    case (Some sb)
    from Cons.prems(2) a obtain n w1 where w1: "syncBuffer_Write e p w = Returned (n, w1)"
        "Writes ps w1 = Returned w'"
      by (auto split: outcome.splits)
    from counter_ok_Write [OF Some w1(1) Cons.prems(1)] have "counter_ok w1" .
    then show ?thesis using w1(2) by (rule Cons.IH)
  qed
qed

text \<open>
  C5. Creating the file and rotating it set the counter to 0; a write that returns has
  been accepted whole by the buffered writer and adds exactly that number of bytes to
  the counter (after the reset, when it rotates); so after any sequence of writes the
  counter is the number of bytes accepted since the current file was created, which are
  the bytes of the file and of the writer together, counted in 64 bits.
\<close>

theorem nbytes_counts_accepted_bytes:
  "(create e sb w = (None, w1) \<longrightarrow> (\<exists>sb1. file' w1 = Some sb1 \<and> nbytes sb1 = 0) \<and> sink_content w1 = [])
   \<and> (file' w = Some sb \<and> rotateFile e now sb w = (None, w2)
        \<longrightarrow> (\<exists>sb2. file' w2 = Some sb2 \<and> nbytes sb2 = 0) \<and> sink_content w2 = [])
   \<and> (file' w = Some sb \<and> syncBuffer_Write e p w = Returned (n, w3)
        \<longrightarrow> n = length p
          \<and> (\<exists>sb3. file' w3 = Some sb3
                \<and> nbytes sb3 = (if fileMaxSize w \<le> nbytes sb + of_nat (length p) then 0 else nbytes sb)
                                  + of_nat n)
          \<and> sink_content w3
              = (if fileMaxSize w \<le> nbytes sb + of_nat (length p) then [] else sink_content w) @ p)
   \<and> (counter_ok w \<and> Writes ps w = Returned w4
        \<longrightarrow> (case file' w4 of None \<Rightarrow> True
             | Some sb4 \<Rightarrow> unat (nbytes sb4) = length (sink_content w4) mod 2 ^ 64
                 \<and> (length (sink_content w4) < 2 ^ 64
                      \<longrightarrow> unat (nbytes sb4) = length (sink_content w4))))"
proof (intro conjI impI)
  assume "create e sb w = (None, w1)"
  from counter_ok_created [OF this]
  show "\<exists>sb1. file' w1 = Some sb1 \<and> nbytes sb1 = 0" and "sink_content w1 = []" by simp_all
next
  assume a: "file' w = Some sb \<and> rotateFile e now sb w = (None, w2)"
  then show "\<exists>sb2. file' w2 = Some sb2 \<and> nbytes sb2 = 0"
    using counter_ok_rotated(1) [of w sb e now w2] by simp
  from a show "sink_content w2 = []" using rotateFile_Returned(2) [of w sb e now w2] by simp
next
  assume a: "file' w = Some sb \<and> syncBuffer_Write e p w = Returned (n, w3)"
  then have sbw: "file' w = Some sb" "syncBuffer_Write e p w = Returned (n, w3)" by simp_all
  note r = syncBuffer_Write_Returned [OF sbw]
  from r show "n = length p" by (rule conjunct1)
  from r obtain sb' where "file' w3 = Some sb'"
      "nbytes sb' = (if fileMaxSize w \<le> nbytes sb + of_nat (length p) then 0 else nbytes sb) + of_nat n"
    by blast
  then show "\<exists>sb3. file' w3 = Some sb3
                \<and> nbytes sb3 = (if fileMaxSize w \<le> nbytes sb + of_nat (length p) then 0 else nbytes sb)
                                  + of_nat n" by (intro exI [of _ sb'] conjI)
  from r show "sink_content w3
              = (if fileMaxSize w \<le> nbytes sb + of_nat (length p) then [] else sink_content w) @ p"
    by (elim conjE)
next
  assume "counter_ok w \<and> Writes ps w = Returned w4"
  then have "counter_ok w4" using counter_ok_Writes by blast
  then show "case file' w4 of None \<Rightarrow> True
             | Some sb4 \<Rightarrow> unat (nbytes sb4) = length (sink_content w4) mod 2 ^ 64
                 \<and> (length (sink_content w4) < 2 ^ 64
                      \<longrightarrow> unat (nbytes sb4) = length (sink_content w4))"
    by (auto simp: counter_ok_def split: option.splits)
qed


theorem nbytes_counts_accepted_bytes_witness:
  "(\<exists>w1 sb1. create example_env fresh_syncBuffer example_world = (None, w1)
        \<and> file' w1 = Some sb1 \<and> nbytes sb1 = 0)
   \<and> (\<exists>w2 sb2. rotateFile example_env example_clock
                   \<lparr>Writer = \<lparr>wbuf = ''new'', werr = None\<rparr>, nbytes = 6\<rparr> example_open = (None, w2)
        \<and> file' w2 = Some sb2 \<and> nbytes sb2 = 0)
   \<and> (\<exists>w3 sb3. syncBuffer_Write example_env ''abc'' example_open = Returned (3, w3)
        \<and> file' w3 = Some sb3 \<and> nbytes sb3 = 9)
   \<and> counter_ok example_open
   \<and> (\<exists>w4 sb4. Writes [(example_env, ''abc''), (example_env, ''de'')] example_open = Returned w4
        \<and> file' w4 = Some sb4 \<and> unat (nbytes sb4) = 11)"
proof -
  let ?e = example_env
  let ?sb = "\<lparr>Writer = \<lparr>wbuf = ''new'', werr = None\<rparr>, nbytes = 6\<rparr>"
  have nf: "no_faults ?e" by (simp add: example_env_def no_faults_def)
  have t: "0 \<le> Year (time_Now ?e)" "valid_Time (time_Now ?e)" "0 \<le> Year example_clock"
      "valid_Time example_clock"
    by (simp_all add: example_env_def example_clock_def valid_Time_def)
  have o: "file' example_open = Some ?sb" "werr (Writer ?sb) = None"
      "disk example_open (logPath example_open) \<noteq> None" "fileMaxSize example_open = 100"
      "nbytes ?sb = 6" "sink_content example_open = ''oldnew''"
    by (simp_all add: example_open_def example_world_def sink_content_def file_content_def)
  have inv: "counter_ok example_open"
    unfolding counter_ok_def o(1) o(6) by simp
  \<comment> \<open>creation\<close>
  obtain w1 where c1: "create ?e fresh_syncBuffer example_world = (None, w1)"
    using nf by (simp add: create_ok no_faults_def)
  note th1 = mp [OF conjunct1 [OF nbytes_counts_accepted_bytes
        [where e = "?e" and sb = fresh_syncBuffer and w = example_world and ?w1.0 = w1]] c1]
  from th1 obtain sb1 where sb1: "file' w1 = Some sb1" "nbytes sb1 = 0" by blast
  have p1: "\<exists>w1 sb1. create ?e fresh_syncBuffer example_world = (None, w1)
        \<and> file' w1 = Some sb1 \<and> nbytes sb1 = 0"
    using c1 sb1 by (intro exI [of _ w1] exI [of _ sb1] conjI)
  \<comment> \<open>rotation\<close>
  obtain w2 where c2: "rotateFile ?e example_clock ?sb example_open = (None, w2)"
    using rotateFile_no_fault [OF o(1) nf o(2) o(3) t(3) t(4)] by blast
  have h2: "file' example_open = Some ?sb \<and> rotateFile ?e example_clock ?sb example_open = (None, w2)"
    using o(1) c2 by (intro conjI)
  note th2 = mp [OF conjunct1 [OF conjunct2 [OF nbytes_counts_accepted_bytes
        [where e = "?e" and sb = "?sb" and w = example_open and now = example_clock and ?w2.0 = w2]]] h2]
  from th2 obtain sb2 where sb2: "file' w2 = Some sb2" "nbytes sb2 = 0" by blast
  have p2: "\<exists>w2 sb2. rotateFile ?e example_clock ?sb example_open = (None, w2)
        \<and> file' w2 = Some sb2 \<and> nbytes sb2 = 0"
    using c2 sb2 by (intro exI [of _ w2] exI [of _ sb2] conjI)
  \<comment> \<open>one write\<close>
  have n3: "\<not> fileMaxSize example_open \<le> nbytes ?sb + of_nat (length ''abc'')"
    unfolding o(4) o(5) by simp
  obtain w3 sb3' where c3: "syncBuffer_Write ?e ''abc'' example_open = Returned (length ''abc'', w3)"
      "file' w3 = Some sb3'" "werr (Writer sb3') = None" "disk w3 (logPath w3) \<noteq> None"
      "fileMaxSize w3 = fileMaxSize example_open"
      "sink_content w3 = sink_content example_open @ ''abc''"
      "nbytes sb3' = nbytes ?sb + of_nat (length ''abc'')"
    using Write_rotates_general [OF o(1) nf o(2) o(3) t(1) t(2), of "''abc''"] n3 by blast
  have h3: "file' example_open = Some ?sb
      \<and> syncBuffer_Write ?e ''abc'' example_open = Returned (length ''abc'', w3)"
    using o(1) c3(1) by (intro conjI)
  note th3 = mp [OF conjunct1 [OF conjunct2 [OF conjunct2 [OF nbytes_counts_accepted_bytes
        [where e = "?e" and sb = "?sb" and w = example_open and p = "''abc''" and n = "length ''abc''"
          and ?w3.0 = w3]]]] h3]
  from th3 n3 obtain sb3 where sb3: "file' w3 = Some sb3" "nbytes sb3 = nbytes ?sb + of_nat (length ''abc'')"
    by auto
  have p3: "\<exists>w3 sb3. syncBuffer_Write ?e ''abc'' example_open = Returned (3, w3)
        \<and> file' w3 = Some sb3 \<and> nbytes sb3 = 9"
    using c3(1) sb3 unfolding o(5) by (intro exI [of _ w3] exI [of _ sb3]) simp
  \<comment> \<open>two writes\<close>
  have n4: "\<not> fileMaxSize w3 \<le> nbytes sb3' + of_nat (length ''de'')"
    unfolding c3(5) c3(7) o(4) o(5) by simp
  obtain w4 sb4 where c4: "syncBuffer_Write ?e ''de'' w3 = Returned (length ''de'', w4)"
      "file' w4 = Some sb4" "sink_content w4 = sink_content w3 @ ''de''"
    using Write_rotates_general [OF c3(2) nf c3(3) c3(4) t(1) t(2), of "''de''"] n4 by blast
  have run: "Writes [(?e, ''abc''), (?e, ''de'')] example_open = Returned w4"
    using c3(1) c4(1) by simp
  have h4: "counter_ok example_open \<and> Writes [(?e, ''abc''), (?e, ''de'')] example_open = Returned w4"
    using inv run by (intro conjI)
  note th4 = mp [OF conjunct2 [OF conjunct2 [OF conjunct2 [OF nbytes_counts_accepted_bytes
        [where w = example_open and ps = "[(?e, ''abc''), (?e, ''de'')]" and ?w4.0 = w4]]]] h4]
  have "length (sink_content w4) = 11" unfolding c4(3) c3(6) o(6) by simp
  with th4 c4(2) have "unat (nbytes sb4) = 11" by simp
  then have p4: "\<exists>w4 sb4. Writes [(?e, ''abc''), (?e, ''de'')] example_open = Returned w4
        \<and> file' w4 = Some sb4 \<and> unat (nbytes sb4) = 11"
    using run c4(2) by (intro exI [of _ w4] exI [of _ sb4] conjI)
  show ?thesis using p1 p2 p3 inv p4 by (intro conjI)
qed

section \<open>Assembling and emitting a record\<close>

lemma LastIndex_mem: "(0 \<le> LastIndex f c) = (c \<in> set f)"
  by (induction f) (auto simp: Let_def)

lemma LastIndex_absent: "c \<notin> set f \<Longrightarrow> LastIndex f c = - 1"
  by (induction f) (auto simp: Let_def)

lemma drop_LastIndex_basename:
  "drop (nat (LastIndex f CHR ''/'' + 1)) f = basename f"
proof (induction f)
  case Nil
  then show ?case by (simp add: basename_def)
next
  case (Cons x xs)
  show ?case
  proof (cases "CHR ''/'' \<in> set xs")
    case True
    then have r: "0 \<le> LastIndex xs CHR ''/''" by (simp add: LastIndex_mem)
    then have "nat (LastIndex xs CHR ''/'' + 1 + 1) = Suc (nat (LastIndex xs CHR ''/'' + 1))"
      by simp
    moreover have "takeWhile (\<lambda>c. c \<noteq> CHR ''/'') (rev xs @ [x]) = takeWhile (\<lambda>c. c \<noteq> CHR ''/'') (rev xs)"
      using True by (intro takeWhile_append1 [of "CHR ''/''"]) simp_all
    ultimately show ?thesis using r Cons.IH by (simp add: Let_def basename_def)
  next
    case False
    then have r: "LastIndex xs CHR ''/'' = - 1" by (rule LastIndex_absent)
    have "takeWhile (\<lambda>c. c \<noteq> CHR ''/'') (rev xs @ [x])
        = rev xs @ takeWhile (\<lambda>c. c \<noteq> CHR ''/'') [x]"
      using False by (intro takeWhile_append2) auto
    then show ?thesis using r by (simp add: Let_def basename_def)
  qed
qed

lemma header_location:
  "(case Caller e k of
      None \<Rightarrow> (''???'', 1)
    | Some (f, ln) \<Rightarrow>
        (let slash = LastIndex f CHR ''/''
         in if slash \<ge> 0 then (drop (nat (slash + 1)) f, ln) else (f, ln)))
   = (caller_file e k, caller_line e k)"
proof (cases "Caller e k")
  case None
  then show ?thesis by (simp add: caller_file_def caller_line_def)
next
  case (Some a)
  obtain f ln where a: "a = (f, ln)" by (cases a)
  have "\<not> 0 \<le> LastIndex f CHR ''/'' \<Longrightarrow> f = basename f"
    using drop_LastIndex_basename [of f] LastIndex_absent [of "CHR ''/''" f]
    by (simp add: LastIndex_mem)
  then show ?thesis
    using Some a drop_LastIndex_basename [of f]
    by (auto simp: caller_file_def caller_line_def Let_def)
qed

lemma header_ok:
  assumes "pool_ok (pool w)" and "env_ok e (3 + depth)" and "0 \<le> sint s"
  shows "\<exists>b. header e s depth w
            = Some ((b, caller_file e (3 + depth), caller_line e (3 + depth)),
                    w\<lparr>pool := snd (getBuffer (pool w))\<rparr>)
          \<and> Buffer b = header_text s (timeNow e) (caller_file e (3 + depth)) (caller_line e (3 + depth))
          \<and> length (tmp b) = 29"
proof -
  from assms(2) have "valid_Time (timeNow e)" "0 \<le> caller_line e (3 + depth)"
      "caller_line e (3 + depth) < 2 ^ 63"
    by (simp_all add: env_ok_def)
  with assms obtain b where b:
      "formatHeader (timeNow e) s (caller_file e (3 + depth)) (caller_line e (3 + depth)) (pool w)
         = Some (b, snd (getBuffer (pool w)))"
      "Buffer b = header_text s (timeNow e) (caller_file e (3 + depth)) (caller_line e (3 + depth))"
      "length (tmp b) = 29"
    using formatHeader_text by blast
  then show ?thesis
    by (simp add: header_def header_location)
qed

lemma header_text_last: "header_text s t fl line \<noteq> [] \<and> last (header_text s t fl line) = CHR '' ''"
  by (simp add: header_text_def)

lemma header_text_hd: "hd (header_text s t fl line) = severity_letter s"
  by (simp add: header_text_def)

lemma record_assembled:
  "(let buf1 = buffer_Write msg (b\<lparr>Buffer := header_text s t fl line\<rparr>)
    in if last (Buffer buf1) \<noteq> newline then Buffer (buffer_Write [newline] buf1) else Buffer buf1)
   = header_text s t fl line @ newline_terminated msg"
proof (cases "msg = []")
  case True
  then show ?thesis
    using header_text_last [of s t fl line]
    by (simp add: buffer_Write_def newline_terminated_def newline_def)
next
  case False
  then show ?thesis
    by (simp add: buffer_Write_def newline_terminated_def Let_def)
qed

lemma pool_ok_step:
  assumes "pool_ok pl" and "length (tmp buf) = 29"
  shows "pool_ok (putBuffer buf (snd (getBuffer pl)))"
  using assms by (auto simp: pool_ok_def putBuffer_def getBuffer_def split: list.splits)

lemma open_step:
  obtains (fail) x where
      "(if file' w = None then create e fresh_syncBuffer w else (None, w)) = (Some x, w)"
      "file' w = None"
  | (go) w1 sb1 where
      "(if file' w = None then create e fresh_syncBuffer w else (None, w)) = (None, w1)"
      "file' w1 = Some sb1"
      "sink_content w1 = (if file' w = None then [] else sink_content w)"
      "logPath w1 = logPath w" "logLevel w1 = logLevel w" "fileMaxSize w1 = fileMaxSize w"
      "pool w1 = pool w" "stderr w1 = stderr w"
      "file' w = None \<or> w1 = w"
      "file' w = None \<longrightarrow> disk w1 (logPath w) = Some [] \<and> werr (Writer sb1) = None"
proof (cases "file' w")
  case (Some sb)
  then show ?thesis by (intro go [of w sb]) simp_all
next
  case None
  obtain er w1 where c: "create e fresh_syncBuffer w = (er, w1)"
    by (cases "create e fresh_syncBuffer w") auto
  show ?thesis
  proof (cases er)
    case (Some x)
    with c create_fails [of e fresh_syncBuffer w x w1] None show ?thesis
      by (intro fail [of x]) simp_all
  next
    case n: None
    note r = create_result [OF c [unfolded n]]
    show ?thesis
      using None c n
      by (intro go [of w1 "fresh_syncBuffer\<lparr>nbytes := 0, Writer := NewWriterSize\<rparr>"])
         (simp_all add: r sink_content_def file_content_def NewWriterSize_def)
  qed
qed

lemma output'_Returned:
  assumes run: "output' e buf fl line w = Returned w'"
  shows "sink_content w' = (if starts_new_file w (Buffer buf) then [] else sink_content w) @ Buffer buf
      \<and> logPath w' = logPath w \<and> logLevel w' = logLevel w \<and> fileMaxSize w' = fileMaxSize w
      \<and> pool w' = putBuffer buf (pool w) \<and> stderr w' = stderr w
      \<and> (\<exists>sb'. file' w' = Some sb' \<and> werr (Writer sb') = None)
      \<and> (sink_ok w \<longrightarrow> sink_ok w')"
proof (rule open_step [of w e], goal_cases)
  case (1 x)
  with run show ?case by (simp add: output'_def exit_def)
next
  case (2 w1 sb1)
  note go = this
  from run go(1) obtain n w2 where w2: "syncBuffer_Write e (Buffer buf) w1 = Returned (n, w2)"
      and w': "w' = w2\<lparr>pool := putBuffer buf (pool w2)\<rparr>"
    by (auto simp: output'_def Let_def split: outcome.splits)
  note r = syncBuffer_Write_Returned [OF go(2) w2]
  let ?c1 = "fileMaxSize w1 \<le> nbytes sb1 + of_nat (length (Buffer buf))"
  have sc: "sink_content w2 = (if starts_new_file w (Buffer buf) then [] else sink_content w) @ Buffer buf"
  proof (cases "file' w")
    case None
    then show ?thesis using r go(3) by (simp add: starts_new_file_def)
  next
    case (Some sb)
    with go(9) go(2) have "w1 = w" "sb1 = sb" by auto
    then show ?thesis using r Some by (simp add: starts_new_file_def)
  qed
  have sc': "sink_content w' = sink_content w2" by (simp add: w' sink_content_def)
  from r obtain sb' where sb': "file' w2 = Some sb'" "werr (Writer sb') = None" by blast
  have ok: "sink_ok w'" if "sink_ok w"
  proof -
    have "disk w1 (logPath w1) \<noteq> None"
      using that go(9) go(10) go(4) go(2) by (auto simp: sink_ok_def)
    then have "disk w2 (logPath w1) \<noteq> None" using r by simp
    then show ?thesis using sb' r go(4) by (simp add: w' sink_ok_def)
  qed
  show ?case
    using sc sc' r go sb' ok by (simp add: w')
qed

lemma output'_no_fault:
  assumes nf: "no_faults e" and ok: "sink_ok w"
  shows "\<exists>w'. output' e buf fl line w = Returned w'"
proof (rule open_step [of w e], goal_cases)
  case (1 x)
  then show ?case using nf by (simp add: create_ok no_faults_def)
next
  case (2 w1 sb1)
  note go = this
  have "werr (Writer sb1) = None" "disk w1 (logPath w1) \<noteq> None"
    using ok go(9) go(10) go(4) go(2) by (auto simp: sink_ok_def)
  then obtain w2 where "syncBuffer_Write e (Buffer buf) w1 = Returned (length (Buffer buf), w2)"
    using syncBuffer_Write_no_fault [OF go(2) nf] by blast
  then show ?case using go(1) by (simp add: output'_def)
qed

lemma output'_outcome:
  "(\<exists>w'. output' e buf fl line w = Returned w') \<or> (\<exists>w'. output' e buf fl line w = Exit 2 w')"
proof (rule open_step [of w e], goal_cases)
  case (1 x)
  then show ?case by (simp add: output'_def exit_def)
next
  case (2 w1 sb1)
  note go = this
  from syncBuffer_Write_outcome [OF go(2), of e "Buffer buf"] show ?case
    using go(1) by (auto simp: output'_def)
qed

lemma printDepth_unfold:
  assumes "pool_ok (pool w)" and "env_ok e (3 + depth)" and "0 \<le> sint s"
  shows "\<exists>buf. printDepth e s depth msg w
           = output' e buf (caller_file e (3 + depth)) (caller_line e (3 + depth))
               (w\<lparr>pool := snd (getBuffer (pool w))\<rparr>)
         \<and> Buffer buf = record_text e s (3 + depth) msg \<and> length (tmp buf) = 29"
proof -
  let ?fl = "caller_file e (3 + depth)" and ?ln = "caller_line e (3 + depth)"
  let ?h = "header_text s (timeNow e) ?fl ?ln"
  from header_ok [OF assms] obtain b where b:
      "header e s depth w = Some ((b, ?fl, ?ln), w\<lparr>pool := snd (getBuffer (pool w))\<rparr>)"
      "Buffer b = ?h" "length (tmp b) = 29"
    by blast
  let ?buf1 = "buffer_Write msg b"
  let ?buf2 = "if last (Buffer ?buf1) \<noteq> newline then buffer_Write [newline] ?buf1 else ?buf1"
  have ne: "Buffer ?buf1 \<noteq> []" using b(2) header_text_last [of s "timeNow e" ?fl ?ln]
    by (simp add: buffer_Write_def)
  have b': "b = b\<lparr>Buffer := ?h\<rparr>" using b(2) by simp
  have "Buffer ?buf2 = ?h @ newline_terminated msg"
    using record_assembled [where msg = msg and b = b and s = s and t = "timeNow e" and fl = ?fl
        and line = ?ln] b(2)
    by (simp add: Let_def buffer_Write_def split: if_splits)
  moreover have "length (tmp ?buf2) = 29" using b(3) by (simp add: buffer_Write_def)
  moreover have "printDepth e s depth msg w
      = output' e ?buf2 ?fl ?ln (w\<lparr>pool := snd (getBuffer (pool w))\<rparr>)"
    using ne by (simp add: printDepth_def b(1) Let_def)
  ultimately show ?thesis by (intro exI [of _ ?buf2]) (simp add: record_text_def)
qed

lemma printDepth_Returned:
  assumes "pool_ok (pool w)" and "env_ok e (3 + depth)" and "0 \<le> sint s"
    and run: "printDepth e s depth msg w = Returned w'"
  shows "sink_content w'
        = (if starts_new_file w (record_text e s (3 + depth) msg) then [] else sink_content w)
          @ record_text e s (3 + depth) msg
      \<and> logPath w' = logPath w \<and> logLevel w' = logLevel w \<and> fileMaxSize w' = fileMaxSize w
      \<and> stderr w' = stderr w \<and> pool_ok (pool w')
      \<and> (\<exists>sb'. file' w' = Some sb' \<and> werr (Writer sb') = None)
      \<and> (sink_ok w \<longrightarrow> sink_ok w')"
proof -
  let ?w0 = "w\<lparr>pool := snd (getBuffer (pool w))\<rparr>"
  from printDepth_unfold [OF assms(1-3), of msg] obtain buf where buf:
      "printDepth e s depth msg w
         = output' e buf (caller_file e (3 + depth)) (caller_line e (3 + depth)) ?w0"
      "Buffer buf = record_text e s (3 + depth) msg" "length (tmp buf) = 29"
    by blast
  note r = output'_Returned [OF run [unfolded buf(1)]]
  have a: "starts_new_file ?w0 (Buffer buf) = starts_new_file w (record_text e s (3 + depth) msg)"
      "sink_content ?w0 = sink_content w" "sink_ok ?w0 = sink_ok w"
    by (simp_all add: starts_new_file_def sink_content_def sink_ok_def buf(2) split: option.splits)
  have "pool_ok (pool w')" using r pool_ok_step [OF assms(1) buf(3)] by simp
  then show ?thesis using r a buf(2) by simp
qed

lemma printDepth_no_fault:
  assumes "pool_ok (pool w)" and "env_ok e (3 + depth)" and "0 \<le> sint s"
    and "no_faults e" and "sink_ok w"
  shows "\<exists>w'. printDepth e s depth msg w = Returned w'"
proof -
  let ?w0 = "w\<lparr>pool := snd (getBuffer (pool w))\<rparr>"
  from printDepth_unfold [OF assms(1-3), of msg] obtain buf where buf:
      "printDepth e s depth msg w
         = output' e buf (caller_file e (3 + depth)) (caller_line e (3 + depth)) ?w0"
    by blast
  have "sink_ok ?w0" using assms(5) by (simp add: sink_ok_def split: option.splits)
  from output'_no_fault [OF assms(4) this] show ?thesis unfolding buf by simp
qed

lemma printDepth_outcome:
  assumes "pool_ok (pool w)" and "env_ok e (3 + depth)" and "0 \<le> sint s"
  shows "(\<exists>w'. printDepth e s depth msg w = Returned w') \<or> (\<exists>w'. printDepth e s depth msg w = Exit 2 w')"
proof -
  from printDepth_unfold [OF assms, of msg] obtain buf where buf:
      "printDepth e s depth msg w
         = output' e buf (caller_file e (3 + depth)) (caller_line e (3 + depth))
             (w\<lparr>pool := snd (getBuffer (pool w))\<rparr>)"
    by blast
  show ?thesis unfolding buf by (rule output'_outcome)
qed

lemma print_variants:
  "printfDepth e s depth msg w = printDepth e s depth msg w"
  "printf e s msg w = printDepth e s 0 msg w"
  "print e s msg w = printDepth e s 1 msg w"
  by (simp_all add: printfDepth_def printf_def print_def printDepth_def)

section \<open>The public operations\<close>

lemma emit_unfold:
  "emit lv st e msg w =
     (if sint (logLevel w) \<le> sint (level_severity lv)
      then (if lv = Fatal_level
            then then_exit e (printDepth e (level_severity lv) (style_frame st - 3) msg w)
            else printDepth e (level_severity lv) (style_frame st - 3) msg w)
      else Returned w)"
  by (cases lv; cases st)
     (simp_all add: print_variants Debug_def Info_def Warning_def Error_def Fatal_def
        Debugf_def Infof_def Warningf_def Errorf_def Fatalf_def
        DebugDepth_def InfoDepth_def WarningDepth_def ErrorDepth_def FatalDepth_def
        DebugfDepth_def InfofDepth_def WarningfDepth_def ErrorfDepth_def FatalfDepth_def)

lemma level_severity_nonneg: "0 \<le> sint (level_severity lv)"
  by (cases lv) (simp_all add: DebugLog_def InfoLog_def WarningLog_def ErrorLog_def FatalLog_def)

lemma flushAll_content: "sink_content (flushAll e w) = sink_content w"
  by (cases "file' w") (simp_all add: flushAll_def syncBuffer_Flush_props(1))

lemma sink_content_stderr: "sink_content (w\<lparr>stderr := x\<rparr>) = sink_content w"
  by (simp add: sink_content_def)

lemma exit_content:
  "\<exists>w'. exit e x w = Exit 2 w' \<and> sink_content w' = sink_content w"
  by (simp add: exit_def flushAll_content sink_content_stderr)

lemma exit_flushed:
  assumes nf: "no_faults e" and sb: "file' w = Some sb"
    and ok: "werr (Writer sb) = None" "disk w (logPath w) \<noteq> None"
  shows "\<exists>w'. exit e x w = Exit 2 w' \<and> disk w' (logPath w) = Some (sink_content w)"
proof -
  let ?w = "w\<lparr>stderr := stderr w @ ''log: exiting because of error: '' @ x @ [newline]\<rparr>"
  have sb': "file' ?w = Some sb" using sb by simp
  note f = syncBuffer_Flush_props [OF sb', of e]
  from f(7) nf ok obtain b where b: "file' (syncBuffer_Flush e sb ?w) = Some (sb\<lparr>Writer := b\<rparr>)"
      "wbuf b = []"
    by (auto simp: no_faults_def)
  from f(9) ok obtain c where c: "disk (syncBuffer_Flush e sb ?w) (logPath w) = Some c" by auto
  have "sink_content (syncBuffer_Flush e sb ?w) = c"
    using b c f(2) by (simp add: sink_content_def file_content_def)
  then have "c = sink_content w" using f(1) by (simp add: sink_content_stderr)
  then show ?thesis using c sb by (simp add: exit_def flushAll_def)
qed

text \<open>
  C1. For each of the five levels and each call style (print, printf and their depth
  variants), a call below the configured minimum returns with the world as it was, sink
  included; a call at or above it, when the operating system does not fail, adds to the
  sink exactly one record, the header of that severity followed by the payload with its
  newline (in a new file when the sink was not open or the write rotates).
\<close>

theorem emit_iff_severity_reaches_minimum:
  "(sint (level_severity lv) < sint (logLevel w) \<longrightarrow> emit lv st e msg w = Returned w)
   \<and> (sint (logLevel w) \<le> sint (level_severity lv) \<and> no_faults e \<and> env_ok e (style_frame st)
        \<and> sink_ok w \<and> pool_ok (pool w)
      \<longrightarrow> (\<exists>w'. final_world (emit lv st e msg w) = Some w'
            \<and> sink_content w'
                = (if starts_new_file w (record_text e (level_severity lv) (style_frame st) msg)
                   then [] else sink_content w)
                  @ record_text e (level_severity lv) (style_frame st) msg
            \<and> hd (record_text e (level_severity lv) (style_frame st) msg)
                = severity_letter (level_severity lv)))"
proof (intro conjI impI)
  assume "sint (level_severity lv) < sint (logLevel w)"
  then show "emit lv st e msg w = Returned w" by (simp add: emit_unfold)
next
  let ?s = "level_severity lv" and ?d = "style_frame st - 3"
  let ?R = "record_text e ?s (style_frame st) msg"
  assume a: "sint (logLevel w) \<le> sint ?s \<and> no_faults e \<and> env_ok e (style_frame st)
        \<and> sink_ok w \<and> pool_ok (pool w)"
  have d: "3 + ?d = style_frame st" by simp
  from a have h: "pool_ok (pool w)" "env_ok e (3 + ?d)" "0 \<le> sint ?s" "no_faults e" "sink_ok w"
    using level_severity_nonneg [of lv] by simp_all
  from printDepth_no_fault [OF h, of msg] obtain w1 where w1: "printDepth e ?s ?d msg w = Returned w1"
    by blast
  note r = printDepth_Returned [OF h(1-3) w1, unfolded d]
  from r have c1: "sink_content w1 = (if starts_new_file w ?R then [] else sink_content w) @ ?R"
    by (rule conjunct1)
  have hd: "hd ?R = severity_letter ?s"
    using header_text_last [of ?s "timeNow e" "caller_file e (style_frame st)" "caller_line e (style_frame st)"]
    by (simp add: record_text_def header_text_hd)
  show "\<exists>w'. final_world (emit lv st e msg w) = Some w'
            \<and> sink_content w' = (if starts_new_file w ?R then [] else sink_content w) @ ?R
            \<and> hd ?R = severity_letter ?s"
  proof (cases "lv = Fatal_level")
    case False
    with a w1 have "final_world (emit lv st e msg w) = Some w1"
      by (simp add: emit_unfold final_world_def)
    with c1 hd show ?thesis by (intro exI [of _ w1] conjI)
  next
    case True
    from exit_content [of e "[]" w1]
    obtain w' where w': "exit e [] w1 = (Exit 2 w' :: (world, world) outcome)"
        "sink_content w' = sink_content w1"
      by blast
    with a w1 True have "final_world (emit lv st e msg w) = Some w'"
      by (simp add: emit_unfold final_world_def then_exit_def)
    with c1 hd w'(2) show ?thesis by (intro exI [of _ w'] conjI) simp_all
  qed
qed

text \<open>
  C7. Whatever the configured minimum among the five levels, each of \<^verbatim>\<open>Fatal\<close>,
  \<^verbatim>\<open>Fatalf\<close>, \<^verbatim>\<open>FatalDepth\<close> and \<^verbatim>\<open>FatalfDepth\<close> ends the process with exit code 2,
  also when creating, rotating or writing the file fails; when nothing fails the file on
  disk then ends with the record, whose first character is \<open>F\<close>: the exit flushed it.
\<close>

theorem Fatal_emits_then_exits:
  "sint (logLevel w) \<le> sint FatalLog \<and> env_ok e (style_frame st) \<and> pool_ok (pool w)
    \<longrightarrow> (\<exists>w'. emit Fatal_level st e msg w = Exit 2 w')
      \<and> (no_faults e \<and> sink_ok w
          \<longrightarrow> (\<exists>w'. emit Fatal_level st e msg w = Exit 2 w'
                \<and> disk w' (logPath w)
                    = Some ((if starts_new_file w (record_text e FatalLog (style_frame st) msg)
                             then [] else sink_content w)
                            @ record_text e FatalLog (style_frame st) msg)
                \<and> hd (record_text e FatalLog (style_frame st) msg) = CHR ''F''))"
proof (intro impI)
  let ?d = "style_frame st - 3"
  let ?R = "record_text e FatalLog (style_frame st) msg"
  assume a: "sint (logLevel w) \<le> sint FatalLog \<and> env_ok e (style_frame st) \<and> pool_ok (pool w)"
  have d: "3 + ?d = style_frame st" by simp
  from a have h: "pool_ok (pool w)" "env_ok e (3 + ?d)" "0 \<le> sint FatalLog"
    by (simp_all add: FatalLog_def)
  have u: "emit Fatal_level st e msg w = then_exit e (printDepth e FatalLog ?d msg w)"
    using a by (simp add: emit_unfold)
  have always: "\<exists>w'. emit Fatal_level st e msg w = Exit 2 w'"
    using printDepth_outcome [OF h, of msg] unfolding u
    by (auto simp: then_exit_def exit_def)
  have flushed: "\<exists>w'. emit Fatal_level st e msg w = Exit 2 w'
                \<and> disk w' (logPath w) = Some ((if starts_new_file w ?R then [] else sink_content w) @ ?R)
                \<and> hd ?R = CHR ''F''"
    if b: "no_faults e \<and> sink_ok w"
  proof -
    from b have nf: "no_faults e" and ok: "sink_ok w" by simp_all
    from printDepth_no_fault [OF h nf ok, of msg] obtain w1 where
      w1: "printDepth e FatalLog ?d msg w = Returned w1" by blast
    note r = printDepth_Returned [OF h w1, unfolded d]
    from r ok obtain sb1 where sb1: "file' w1 = Some sb1" "werr (Writer sb1) = None"
        "disk w1 (logPath w1) \<noteq> None"
      by (auto simp: sink_ok_def)
    from exit_flushed [OF nf sb1, of "[]"]
    obtain w' where w': "exit e [] w1 = (Exit 2 w' :: (world, world) outcome)"
        "disk w' (logPath w1) = Some (sink_content w1)"
      by blast
    have "hd ?R = CHR ''F''"
      using header_text_last [of FatalLog "timeNow e" "caller_file e (style_frame st)"
          "caller_line e (style_frame st)"]
      by (simp add: record_text_def header_text_hd severity_letter_def FatalLog_def DebugLog_def
          InfoLog_def WarningLog_def ErrorLog_def)
    moreover have "emit Fatal_level st e msg w = Exit 2 w'"
      unfolding u w1 using w'(1) by (simp add: then_exit_def)
    ultimately show ?thesis using w'(2) r by (intro exI [of _ w']) simp
  qed
  from always flushed
  show "(\<exists>w'. emit Fatal_level st e msg w = Exit 2 w')
      \<and> (no_faults e \<and> sink_ok w
          \<longrightarrow> (\<exists>w'. emit Fatal_level st e msg w = Exit 2 w'
                \<and> disk w' (logPath w) = Some ((if starts_new_file w ?R then [] else sink_content w) @ ?R)
                \<and> hd ?R = CHR ''F''))"
    by (intro conjI impI)
qed

section \<open>The example logger\<close>

lemma example_header:
  "header_text s example_clock ''demo.go'' 42
     = severity_letter s # ''2024-03-07 08:09:05.000123 demo.go:42] ''"
proof -
  have "zero_padded 4 2024 = ''2024'' \<and> zero_padded 2 3 = ''03'' \<and> zero_padded 2 7 = ''07''
      \<and> zero_padded 2 8 = ''08'' \<and> zero_padded 2 9 = ''09'' \<and> zero_padded 2 5 = ''05''
      \<and> zero_padded 6 123 = ''000123'' \<and> decimal 42 = ''42''"
    by (simp add: zero_padded_numeral decimal.simps digit_char_def)
  then show ?thesis by (simp add: header_text_def example_clock_def)
qed

lemma example_caller: "caller_file example_env k = ''demo.go''" "caller_line example_env k = 42"
  by (simp_all add: caller_file_def caller_line_def example_env_def basename_def)

lemma example_record:
  "record_text example_env s k msg
     = severity_letter s # ''2024-03-07 08:09:05.000123 demo.go:42] '' @ newline_terminated msg"
  using example_header [of s]
  by (simp add: record_text_def example_caller) (simp add: example_env_def)

lemma example_hyps:
  "no_faults example_env" "env_ok example_env k" "sink_ok example_world" "pool_ok (pool example_world)"
  "starts_new_file example_world p" "logPath example_world = ''app.log''"
  "logLevel example_world = InfoLog"
  by (simp_all add: no_faults_def env_ok_def example_caller sink_ok_def pool_ok_def starts_new_file_def
      example_world_def)
     (simp_all add: example_env_def example_clock_def valid_Time_def)

theorem emit_iff_severity_reaches_minimum_witness:
  "sint (level_severity Debug_level) < sint (logLevel example_world)
   \<and> emit Debug_level Print_style example_env ''hello'' example_world = Returned example_world
   \<and> sint (logLevel example_world) \<le> sint (level_severity Warning_level)
   \<and> no_faults example_env \<and> env_ok example_env (style_frame Printf_style)
   \<and> sink_ok example_world \<and> pool_ok (pool example_world)
   \<and> (\<exists>w'. final_world (emit Warning_level Printf_style example_env ''hello'' example_world) = Some w'
         \<and> sink_content w' = ''W2024-03-07 08:09:05.000123 demo.go:42] hello'' @ [newline])"
proof -
  have lo: "sint (level_severity Debug_level) < sint (logLevel example_world)"
    by (simp add: example_hyps DebugLog_def InfoLog_def)
  have hi: "sint (logLevel example_world) \<le> sint (level_severity Warning_level)"
    by (simp add: example_hyps WarningLog_def InfoLog_def)
  note t1 = mp [OF conjunct1 [OF emit_iff_severity_reaches_minimum
          [where lv = Debug_level and w = example_world and st = Print_style and e = example_env
             and msg = "''hello''"]] lo]
  have hyps: "sint (logLevel example_world) \<le> sint (level_severity Warning_level)
      \<and> no_faults example_env \<and> env_ok example_env (style_frame Printf_style)
      \<and> sink_ok example_world \<and> pool_ok (pool example_world)"
    using hi example_hyps(1-4) by (intro conjI)
  note t2 = mp [OF conjunct2 [OF emit_iff_severity_reaches_minimum
          [where lv = Warning_level and w = example_world and st = Printf_style and e = example_env
             and msg = "''hello''"]] hyps]
  have r: "record_text example_env (level_severity Warning_level) (style_frame Printf_style) ''hello''
      = ''W2024-03-07 08:09:05.000123 demo.go:42] hello'' @ [newline]"
    by (simp add: example_record severity_letter_def WarningLog_def DebugLog_def InfoLog_def
        newline_terminated_def newline_def)
  from t2 obtain w' where w': "final_world (emit Warning_level Printf_style example_env ''hello'' example_world) = Some w'"
      "sink_content w' = ''W2024-03-07 08:09:05.000123 demo.go:42] hello'' @ [newline]"
    unfolding r by (auto simp: example_hyps)
  then have e: "\<exists>w'. final_world (emit Warning_level Printf_style example_env ''hello'' example_world) = Some w'
         \<and> sink_content w' = ''W2024-03-07 08:09:05.000123 demo.go:42] hello'' @ [newline]"
    by (intro exI [of _ w'] conjI)
  show ?thesis using lo t1 hi example_hyps(1-4) e by (intro conjI)
qed

theorem Fatal_emits_then_exits_witness:
  "sint (logLevel example_world) \<le> sint FatalLog \<and> env_ok example_env (style_frame Print_style)
   \<and> pool_ok (pool example_world) \<and> no_faults example_env \<and> sink_ok example_world
   \<and> (\<exists>w'. Fatal example_env ''stop'' example_world = Exit 2 w'
         \<and> disk w' ''app.log'' = Some (''F2024-03-07 08:09:05.000123 demo.go:42] stop'' @ [newline]))"
proof -
  have hi: "sint (logLevel example_world) \<le> sint FatalLog"
    by (simp add: example_hyps FatalLog_def InfoLog_def)
  have hyps: "sint (logLevel example_world) \<le> sint FatalLog \<and> env_ok example_env (style_frame Print_style)
      \<and> pool_ok (pool example_world)"
    using hi example_hyps(2,4) by (intro conjI)
  have hyps2: "no_faults example_env \<and> sink_ok example_world"
    using example_hyps(1,3) by (intro conjI)
  note t = mp [OF conjunct2 [OF mp [OF Fatal_emits_then_exits
          [where w = example_world and st = Print_style and e = example_env and msg = "''stop''"]
          hyps]] hyps2]
  have r: "record_text example_env FatalLog (style_frame Print_style) ''stop''
      = ''F2024-03-07 08:09:05.000123 demo.go:42] stop'' @ [newline]"
    by (simp add: example_record severity_letter_def FatalLog_def WarningLog_def DebugLog_def
        InfoLog_def ErrorLog_def newline_terminated_def newline_def)
  from t obtain w' where w': "emit Fatal_level Print_style example_env ''stop'' example_world = Exit 2 w'"
      "disk w' ''app.log'' = Some (''F2024-03-07 08:09:05.000123 demo.go:42] stop'' @ [newline])"
    unfolding r by (auto simp: example_hyps)
  then have "\<exists>w'. Fatal example_env ''stop'' example_world = Exit 2 w'
         \<and> disk w' ''app.log'' = Some (''F2024-03-07 08:09:05.000123 demo.go:42] stop'' @ [newline])"
    by (intro exI [of _ w']) simp
  then show ?thesis using hi example_hyps(1-4) by (intro conjI)
qed

section \<open>The trailing newline\<close>

lemma newline_terminated_last: "newline_terminated msg \<noteq> [] \<and> last (newline_terminated msg) = newline"
  by (simp add: newline_terminated_def)

lemma suffix_two_snoc:
  "suffix [a, b] (xs @ [c]) \<longleftrightarrow> c = b \<and> xs \<noteq> [] \<and> last xs = a"
proof (cases xs rule: rev_cases)
  case Nil
  then show ?thesis by (auto simp: suffix_def)
next
  case (snoc ys y)
  have "suffix ([a] @ [b]) ((ys @ [y]) @ [c]) \<longleftrightarrow> b = c \<and> suffix [a] (ys @ [y])"
    by (rule snoc_suffix_snoc)
  moreover have "suffix ([] @ [a]) (ys @ [y]) \<longleftrightarrow> a = y \<and> suffix [] ys"
    by (rule snoc_suffix_snoc)
  ultimately show ?thesis using snoc by auto
qed

lemma two_newlines_kept:
  assumes "h \<noteq> []" and "last h \<noteq> newline"
  shows "suffix [newline, newline] (h @ newline_terminated msg) \<longleftrightarrow> suffix [newline, newline] msg"
proof (cases msg rule: rev_cases)
  case Nil
  have "suffix [newline, newline] (h @ [newline]) \<longleftrightarrow> newline = newline \<and> h \<noteq> [] \<and> last h = newline"
    by (rule suffix_two_snoc)
  then have "\<not> suffix [newline, newline] (h @ [newline])" using assms by blast
  moreover have "\<not> suffix [newline, newline] ([] :: string)" by (simp add: suffix_def)
  moreover have "newline_terminated [] = [newline]" by (simp add: newline_terminated_def)
  ultimately show ?thesis unfolding Nil by simp
next
  case (snoc ys y)
  have l: "suffix [newline, newline] ((h @ ys) @ [c]) \<longleftrightarrow> c = newline \<and> h @ ys \<noteq> [] \<and> last (h @ ys) = newline"
    for c by (rule suffix_two_snoc)
  have r: "suffix [newline, newline] (ys @ [y]) \<longleftrightarrow> y = newline \<and> ys \<noteq> [] \<and> last ys = newline"
    by (rule suffix_two_snoc)
  show ?thesis
  proof (cases "y = newline")
    case True
    have nt: "newline_terminated (ys @ [y]) = ys @ [y]" using True by (simp add: newline_terminated_def)
    have "(h @ ys \<noteq> [] \<and> last (h @ ys) = newline) \<longleftrightarrow> (ys \<noteq> [] \<and> last ys = newline)"
      using assms by (cases "ys = []") simp_all
    with l [of y] r have "suffix [newline, newline] ((h @ ys) @ [y]) \<longleftrightarrow> suffix [newline, newline] (ys @ [y])"
      using True by blast
    then show ?thesis unfolding snoc nt by (simp only: append_assoc)
  next
    case False
    have nt: "newline_terminated (ys @ [y]) = (ys @ [y]) @ [newline]"
      using False by (simp add: newline_terminated_def)
    have "suffix [newline, newline] ((h @ ys @ [y]) @ [newline])
        \<longleftrightarrow> newline = newline \<and> h @ ys @ [y] \<noteq> [] \<and> last (h @ ys @ [y]) = newline"
      by (rule suffix_two_snoc)
    then have "\<not> suffix [newline, newline] ((h @ ys @ [y]) @ [newline])" using False by simp
    moreover have "\<not> suffix [newline, newline] (ys @ [y])" using r False by blast
    ultimately show ?thesis unfolding snoc nt by (simp only: append_assoc)
  qed
qed

text \<open>
  C4 (amended). For every payload, print-style or printf-style, the record that reaches
  the sink is the header followed by the payload as it is when the payload ends in a
  newline, and by the payload and one newline otherwise. The record therefore always
  ends in a newline, the newline is added only when the payload lacks one, and trailing
  newlines of the payload are kept: the record ends in two newlines exactly when the
  payload does.
\<close>

theorem record_ends_in_newline:
  "(pool_ok (pool w) \<and> env_ok e (3 + depth) \<and> 0 \<le> sint s \<and> no_faults e \<and> sink_ok w
     \<longrightarrow> (\<exists>w'. printDepth e s depth msg w = Returned w'
            \<and> printfDepth e s depth msg w = Returned w'
            \<and> sink_content w'
                = (if starts_new_file w (record_text e s (3 + depth) msg) then [] else sink_content w)
                  @ record_text e s (3 + depth) msg))
   \<and> record_text e s (3 + depth) msg
       = header_text s (timeNow e) (caller_file e (3 + depth)) (caller_line e (3 + depth))
         @ (if msg \<noteq> [] \<and> last msg = newline then msg else msg @ [newline])
   \<and> last (record_text e s (3 + depth) msg) = newline
   \<and> (suffix [newline, newline] (record_text e s (3 + depth) msg) \<longleftrightarrow> suffix [newline, newline] msg)"
proof (intro conjI impI)
  let ?R = "record_text e s (3 + depth) msg"
  assume a: "pool_ok (pool w) \<and> env_ok e (3 + depth) \<and> 0 \<le> sint s \<and> no_faults e \<and> sink_ok w"
  then have h: "pool_ok (pool w)" "env_ok e (3 + depth)" "0 \<le> sint s" "no_faults e" "sink_ok w"
    by simp_all
  from printDepth_no_fault [OF h, of msg] obtain w' where w': "printDepth e s depth msg w = Returned w'"
    by blast
  from printDepth_Returned [OF h(1-3) w']
  have "sink_content w' = (if starts_new_file w ?R then [] else sink_content w) @ ?R"
    by (rule conjunct1)
  with w' show "\<exists>w'. printDepth e s depth msg w = Returned w'
            \<and> printfDepth e s depth msg w = Returned w'
            \<and> sink_content w' = (if starts_new_file w ?R then [] else sink_content w) @ ?R"
    by (intro exI [of _ w']) (simp add: print_variants)
next
  show "record_text e s (3 + depth) msg
       = header_text s (timeNow e) (caller_file e (3 + depth)) (caller_line e (3 + depth))
         @ (if msg \<noteq> [] \<and> last msg = newline then msg else msg @ [newline])"
    by (simp add: record_text_def newline_terminated_def)
next
  show "last (record_text e s (3 + depth) msg) = newline"
    using newline_terminated_last [of msg] by (simp add: record_text_def)
next
  have "last (header_text s (timeNow e) (caller_file e (3 + depth)) (caller_line e (3 + depth))) \<noteq> newline"
    using header_text_last [of s "timeNow e" "caller_file e (3 + depth)" "caller_line e (3 + depth)"]
    by (simp add: newline_def)
  then show "suffix [newline, newline] (record_text e s (3 + depth) msg) \<longleftrightarrow> suffix [newline, newline] msg"
    unfolding record_text_def
    using header_text_last [of s "timeNow e" "caller_file e (3 + depth)" "caller_line e (3 + depth)"]
    by (intro two_newlines_kept) simp_all
qed

lemma example_print:
  "\<exists>w'. printDepth example_env InfoLog 0 msg example_world = Returned w'
       \<and> printfDepth example_env InfoLog 0 msg example_world = Returned w'
       \<and> sink_content w' = ''I2024-03-07 08:09:05.000123 demo.go:42] '' @ newline_terminated msg"
proof -
  have h: "pool_ok (pool example_world)" "env_ok example_env (3 + 0)" "0 \<le> sint InfoLog"
      "no_faults example_env" "sink_ok example_world"
    using example_hyps(1-4) by (simp_all add: InfoLog_def)
  from printDepth_no_fault [OF h, of msg] obtain w' where
    w': "printDepth example_env InfoLog 0 msg example_world = Returned w'" by blast
  have r: "record_text example_env InfoLog (3 + 0) msg
      = ''I2024-03-07 08:09:05.000123 demo.go:42] '' @ newline_terminated msg"
    by (simp add: example_record severity_letter_def InfoLog_def DebugLog_def)
  from printDepth_Returned [OF h(1-3) w']
  have "sink_content w' = ''I2024-03-07 08:09:05.000123 demo.go:42] '' @ newline_terminated msg"
    unfolding r by (simp add: example_hyps)
  with w' show ?thesis by (intro exI [of _ w']) (simp add: print_variants)
qed

text \<open>
  The claim as stated fails on a payload that ends in two newlines: both reach the sink.
\<close>

theorem record_keeps_two_newlines_counterexample:
  "map_option sink_content
     (final_world (printDepth example_env InfoLog 0 (''x'' @ [newline, newline]) example_world))
     = Some (''I2024-03-07 08:09:05.000123 demo.go:42] x'' @ [newline, newline])
   \<and> map_option sink_content
     (final_world (printfDepth example_env InfoLog 0 (''x'' @ [newline, newline]) example_world))
     = Some (''I2024-03-07 08:09:05.000123 demo.go:42] x'' @ [newline, newline])"
proof -
  from example_print [of "''x'' @ [newline, newline]"] obtain w' where
      "printDepth example_env InfoLog 0 (''x'' @ [newline, newline]) example_world = Returned w'"
      "printfDepth example_env InfoLog 0 (''x'' @ [newline, newline]) example_world = Returned w'"
      "sink_content w' = ''I2024-03-07 08:09:05.000123 demo.go:42] ''
          @ newline_terminated (''x'' @ [newline, newline])"
    by blast
  then show ?thesis by (simp add: final_world_def newline_terminated_def)
qed

theorem record_ends_in_newline_witness:
  "pool_ok (pool example_world) \<and> env_ok example_env (3 + 0) \<and> 0 \<le> sint InfoLog
   \<and> no_faults example_env \<and> sink_ok example_world
   \<and> (\<exists>w'. printDepth example_env InfoLog 0 ''x'' example_world = Returned w'
         \<and> printfDepth example_env InfoLog 0 ''x'' example_world = Returned w'
         \<and> sink_content w' = ''I2024-03-07 08:09:05.000123 demo.go:42] x'' @ [newline])
   \<and> (\<exists>w'. printDepth example_env InfoLog 0 (''x'' @ [newline]) example_world = Returned w'
         \<and> printfDepth example_env InfoLog 0 (''x'' @ [newline]) example_world = Returned w'
         \<and> sink_content w' = ''I2024-03-07 08:09:05.000123 demo.go:42] x'' @ [newline])"
proof -
  have h: "pool_ok (pool example_world)" "env_ok example_env (3 + 0)" "0 \<le> sint InfoLog"
      "no_faults example_env" "sink_ok example_world"
    using example_hyps(1-4) by (simp_all add: InfoLog_def)
  have hyps: "pool_ok (pool example_world) \<and> env_ok example_env (3 + 0) \<and> 0 \<le> sint InfoLog
      \<and> no_faults example_env \<and> sink_ok example_world"
    using h by (intro conjI)
  have r: "record_text example_env InfoLog (3 + 0) msg
      = ''I2024-03-07 08:09:05.000123 demo.go:42] '' @ newline_terminated msg" for msg
    by (simp add: example_record severity_letter_def InfoLog_def DebugLog_def)
  note t1 = mp [OF conjunct1 [OF record_ends_in_newline
          [where w = example_world and e = example_env and depth = 0 and s = InfoLog
             and msg = "''x''"]] hyps]
  note t2 = mp [OF conjunct1 [OF record_ends_in_newline
          [where w = example_world and e = example_env and depth = 0 and s = InfoLog
             and msg = "''x'' @ [newline]"]] hyps]
  from t1 have e1: "\<exists>w'. printDepth example_env InfoLog 0 ''x'' example_world = Returned w'
         \<and> printfDepth example_env InfoLog 0 ''x'' example_world = Returned w'
         \<and> sink_content w' = ''I2024-03-07 08:09:05.000123 demo.go:42] x'' @ [newline]"
    unfolding r by (simp add: example_hyps newline_terminated_def newline_def)
  from t2 have e2: "\<exists>w'. printDepth example_env InfoLog 0 (''x'' @ [newline]) example_world = Returned w'
         \<and> printfDepth example_env InfoLog 0 (''x'' @ [newline]) example_world = Returned w'
         \<and> sink_content w' = ''I2024-03-07 08:09:05.000123 demo.go:42] x'' @ [newline]"
    unfolding r by (simp add: example_hyps newline_terminated_def)
  show ?thesis using h e1 e2 by (intro conjI)
qed


end
